theory Spec2Isabelle
  imports Complex_Main
begin

section \<open>Python library functions used by the detectors\<close>

text \<open>
  Strings are lists of bytes. The scores are Python floats; they are modelled by the
  reals. The three score functions of the detectors only add the weights 1.0, 2.0 and
  3.0: the partial sums are whole numbers, exact in binary floating point up to
  \<open>2 ^ 53\<close>, and any sum of 10 or more is capped at 10.0, so the real number is the
  float that Python returns.
\<close>

definition NL :: char where
  "NL = CHR 0x0A"

text \<open>\<^verbatim>\<open>s.split(sep)\<close> for a one-character separator: never the empty list.\<close>

fun split :: "char \<Rightarrow> string \<Rightarrow> string list" where
  "split sep [] = [[]]"
| "split sep (c # cs) =
     (if c = sep then [] # split sep cs
      else (case split sep cs of
              [] \<Rightarrow> [[c]]
            | w # ws \<Rightarrow> (c # w) # ws))"

text \<open>\<^verbatim>\<open>sep.join(parts)\<close>.\<close>

fun join :: "string \<Rightarrow> string list \<Rightarrow> string" where
  "join sep [] = []"
| "join sep [x] = x"
| "join sep (x # y # ys) = x @ sep @ join sep (y # ys)"

text \<open>\<^verbatim>\<open>xs[start:end]\<close> for bounds that are not negative.\<close>

definition slice :: "'a list \<Rightarrow> nat \<Rightarrow> nat \<Rightarrow> 'a list" where
  "slice xs start end' = drop start (take end' xs)"

definition QUOTE :: char where
  "QUOTE = CHR 0x27"

section \<open>The syntax tree of the \<^verbatim>\<open>ast\<close> module\<close>

text \<open>
  One type for every node, as in Python, where each node is an \<^verbatim>\<open>ast.AST\<close>. The node
  classes that some detector tests with \<^verbatim>\<open>isinstance\<close> or gives a \<^verbatim>\<open>visit_\<close> method
  have a constructor of their own, with their child fields in the order of \<^verbatim>\<open>_fields\<close>
  and their line number last. Every other node class (If, Assign, ClassDef, arguments,
  keyword, operators, ...) is \<open>Other\<close>, holding its child nodes in field order.
\<close>

datatype py_const = CNone | CBool bool | CInt int | CStr string | COther

datatype ast =
    Module "ast list" "ast list"
  | FunctionDef string ast "ast list" "ast list" "ast option" "ast list" nat
  | While ast "ast list" "ast list" nat
  | For ast ast "ast list" "ast list" nat
  | Try "ast list" "ast list" "ast list" "ast list" nat
  | ExceptHandler "ast option" "string option" "ast list" nat
  | Expr ast nat
  | Return "ast option" nat
  | Raise "ast option" "ast option" nat
  | Break nat
  | Continue nat
  | Pass nat
  | Constant py_const nat
  | Name string ast nat
  | Attribute ast string ast nat
  | Call ast "ast list" "ast list" nat
  | BinOp ast ast ast nat
  | Load
  | Store
  | Del
  | Other "ast list"

text \<open>An optional child field: absent when it is \<^verbatim>\<open>None\<close>.\<close>

fun opt_child :: "ast option \<Rightarrow> ast list" where
  "opt_child None = []"
| "opt_child (Some n) = [n]"

text \<open>\<^verbatim>\<open>ast.iter_child_nodes(node)\<close>: the direct children, in field order.\<close>

fun iter_child_nodes :: "ast \<Rightarrow> ast list" where
  "iter_child_nodes (Module body type_ignores) = body @ type_ignores"
| "iter_child_nodes (FunctionDef name args body decorator_list returns type_params lineno) =
     args # body @ decorator_list @ opt_child returns @ type_params"
| "iter_child_nodes (While test body orelse lineno) = test # body @ orelse"
| "iter_child_nodes (For target iter body orelse lineno) = target # iter # body @ orelse"
| "iter_child_nodes (Try body handlers orelse finalbody lineno) =
     body @ handlers @ orelse @ finalbody"
| "iter_child_nodes (ExceptHandler type name body lineno) = opt_child type @ body"
| "iter_child_nodes (Expr v lineno) = [v]"
| "iter_child_nodes (Return v lineno) = opt_child v"
| "iter_child_nodes (Raise exc cause lineno) = opt_child exc @ opt_child cause"
| "iter_child_nodes (Break lineno) = []"
| "iter_child_nodes (Continue lineno) = []"
| "iter_child_nodes (Pass lineno) = []"
| "iter_child_nodes (Constant v lineno) = []"
| "iter_child_nodes (Name ident ctx lineno) = [ctx]"
| "iter_child_nodes (Attribute v attr ctx lineno) = [v, ctx]"
| "iter_child_nodes (Call func args keywords lineno) = func # args @ keywords"
| "iter_child_nodes (BinOp left op right lineno) = [left, op, right]"
| "iter_child_nodes Load = []"
| "iter_child_nodes Store = []"
| "iter_child_nodes Del = []"
| "iter_child_nodes (Other children) = children"

lemma sum_size_opt_child: "sum_list (map size (opt_child v)) \<le> size_option size v"
  by (cases v) simp_all

lemma sum_size_children:
  "iter_child_nodes n \<noteq> [] \<Longrightarrow> sum_list (map size (iter_child_nodes n)) < size n"
proof (cases n)
  case (FunctionDef name args body dl returns tps lineno)
  then show ?thesis
    using sum_size_opt_child [of returns] by (simp add: size_list_conv_sum_list)
next
  case (ExceptHandler type name body lineno)
  then show ?thesis
    using sum_size_opt_child [of type] by (simp add: size_list_conv_sum_list)
next
  case (Return v lineno)
  then show ?thesis by (cases v) simp_all
next
  case (Raise exc cause lineno)
  then show ?thesis
    using sum_size_opt_child [of exc] sum_size_opt_child [of cause] by simp
qed (simp_all add: size_list_conv_sum_list)

lemma size_child: "c \<in> set (iter_child_nodes n) \<Longrightarrow> size c < size n"
proof -
  assume c: "c \<in> set (iter_child_nodes n)"
  then have "size c \<le> sum_list (map size (iter_child_nodes n))"
    by (simp add: member_le_sum_list)
  moreover from c have "iter_child_nodes n \<noteq> []" by auto
  ultimately show ?thesis using sum_size_children [of n] by simp
qed

text \<open>
  \<^verbatim>\<open>ast.walk(node)\<close>: the node and all its descendants, breadth first: the queue
  starts with the node; each node taken from the front has its children appended.
\<close>

function walk_queue :: "ast list \<Rightarrow> ast list" where
  "walk_queue [] = []"
| "walk_queue (node # todo) = node # walk_queue (todo @ iter_child_nodes node)"
  by pat_completeness auto
termination
proof (relation "measures [\<lambda>q. sum_list (map size q), length]", goal_cases)
  case 1
  show ?case by simp
next
  case (2 node todo)
  show ?case
  proof (cases "iter_child_nodes node = []")
    case True
    then show ?thesis by auto
  next
    case False
    then show ?thesis using sum_size_children [of node] by simp
  qed
qed

definition walk :: "ast \<Rightarrow> ast list" where
  "walk node = walk_queue [node]"

text \<open>The \<^verbatim>\<open>isinstance\<close> tests the detectors make.\<close>

fun is_Pass :: "ast \<Rightarrow> bool" where
  "is_Pass (Pass lineno) = True"
| "is_Pass node = False"

fun is_Continue :: "ast \<Rightarrow> bool" where
  "is_Continue (Continue lineno) = True"
| "is_Continue node = False"

fun is_Break :: "ast \<Rightarrow> bool" where
  "is_Break (Break lineno) = True"
| "is_Break node = False"

fun is_Call :: "ast \<Rightarrow> bool" where
  "is_Call (Call func args keywords lineno) = True"
| "is_Call node = False"

fun is_BinOp :: "ast \<Rightarrow> bool" where
  "is_BinOp (BinOp left op right lineno) = True"
| "is_BinOp node = False"

text \<open>\<^verbatim>\<open>d.get(key, default)\<close> on a dictionary.\<close>

definition dict_get :: "('k \<rightharpoonup> 'v) \<Rightarrow> 'k \<Rightarrow> 'v \<Rightarrow> 'v" where
  "dict_get m k dflt = (case m k of None \<Rightarrow> dflt | Some v \<Rightarrow> v)"

section \<open>Exceptions, the call stack and \<^verbatim>\<open>ast.NodeVisitor\<close>\<close>

text \<open>
  \<^verbatim>\<open>ast.parse\<close> is Python's own parser and is a parameter here: it returns the tree or
  raises. \<^verbatim>\<open>SyntaxError\<close> is the exception the detectors catch; any other exception
  (a \<^verbatim>\<open>ValueError\<close> for a null byte, a \<^verbatim>\<open>RecursionError\<close>, a \<^verbatim>\<open>KeyError\<close>) passes
  through them to the caller.
\<close>

datatype py_error = SyntaxError | ValueError | RecursionError | KeyError

type_synonym parser = "string \<Rightarrow> py_error + ast"

text \<open>
  The interpreter allows a bounded number of nested calls and raises
  \<^verbatim>\<open>RecursionError\<close> beyond it. The visitors are recursive, so they are given the number
  \<open>frames\<close> of nested calls that the interpreter still allows. \<open>py_call frames f\<close> is a
  call of a function written in Python: it raises \<^verbatim>\<open>RecursionError\<close> when no frame is
  left, and else runs the body \<open>f\<close> with one frame less.

  Counted are the calls that nest as the traversal descends: \<^verbatim>\<open>visit\<close>, the
  \<^verbatim>\<open>visit_\<close> method it dispatches to, \<^verbatim>\<open>generic_visit\<close>, and the generator
  \<^verbatim>\<open>iter_fields\<close> that \<^verbatim>\<open>generic_visit\<close> resumes at least once. The helper methods
  (\<^verbatim>\<open>_get_code_snippet\<close>, \<^verbatim>\<open>_is_swallowed\<close>, \<^verbatim>\<open>_has_logging\<close> over \<^verbatim>\<open>ast.walk\<close>,
  the constructors of the findings, ...) return before the \<^verbatim>\<open>visit_\<close> method calls
  \<^verbatim>\<open>generic_visit\<close>, which every \<^verbatim>\<open>visit_\<close> method does, and nest no deeper than
  that call does on the same node; an exception from either ends the traversal in the
  same way, so the helpers are not counted.
\<close>

definition py_call :: "nat \<Rightarrow> (nat \<Rightarrow> py_error + 'a) \<Rightarrow> py_error + 'a" where
  "py_call frames f = (case frames of 0 \<Rightarrow> Inl RecursionError | Suc rest \<Rightarrow> f rest)"

text \<open>
  The loop \<^verbatim>\<open>for item in value: self.visit(item)\<close> over the children; an exception
  ends it.
\<close>

fun visit_each :: "(ast \<Rightarrow> 's \<Rightarrow> py_error + 's) \<Rightarrow> ast list \<Rightarrow> 's \<Rightarrow> py_error + 's" where
  "visit_each visit [] d = Inr d"
| "visit_each visit (c # cs) d =
     (case visit c d of
        Inl e \<Rightarrow> Inl e
      | Inr d' \<Rightarrow> visit_each visit cs d')"

text \<open>
  \<^verbatim>\<open>NodeVisitor.generic_visit(self, node)\<close>: a call that resumes \<^verbatim>\<open>iter_fields\<close> and
  calls \<^verbatim>\<open>self.visit\<close> on every child in turn. The visitor's state is passed along
  explicitly.
\<close>

definition generic_visit ::
  "nat \<Rightarrow> (nat \<Rightarrow> ast \<Rightarrow> 's \<Rightarrow> py_error + 's) \<Rightarrow> ast \<Rightarrow> 's \<Rightarrow> py_error + 's" where
  "generic_visit frames visit node d =
     py_call frames (\<lambda>a. py_call a (\<lambda>b. visit_each (visit a) (iter_child_nodes node) d))"

lemma py_call_cong [fundef_cong]:
  "frames = frames' \<Longrightarrow> (\<And>a. a < frames' \<Longrightarrow> f a = g a) \<Longrightarrow> py_call frames f = py_call frames' g"
  by (cases frames') (simp_all add: py_call_def)

lemma visit_each_cong:
  "(\<And>c s. c \<in> set cs \<Longrightarrow> v c s = v' c s) \<Longrightarrow> visit_each v cs d = visit_each v' cs d"
  by (induction cs arbitrary: d) (auto split: sum.splits)

lemma generic_visit_cong [fundef_cong]:
  "frames = frames' \<Longrightarrow> node = node' \<Longrightarrow> d = d' \<Longrightarrow>
   (\<And>a c s. a < frames' \<Longrightarrow> c \<in> set (iter_child_nodes node') \<Longrightarrow> v a c s = v' a c s)
   \<Longrightarrow> generic_visit frames v node d = generic_visit frames' v' node' d'"
  unfolding generic_visit_def
  by (auto intro!: py_call_cong visit_each_cong)

section \<open>What the three detectors share\<close>

text \<open>
  The three detector classes declare the same attributes \<^verbatim>\<open>source_lines\<close> and
  \<^verbatim>\<open>current_context\<close>; each adds its list of findings. Their methods
  \<^verbatim>\<open>_get_code_snippet\<close> are the same text, modelled once, on the detector's
  \<^verbatim>\<open>source_lines\<close>. Line numbers are those of the parser: positive, counted from 1.
  Names that begin with an underscore in the source are written without it.
\<close>

record Detector =
  source_lines :: "string list"
  current_context :: string

definition get_code_snippet :: "string list \<Rightarrow> nat \<Rightarrow> string" where
  "get_code_snippet lines line =
     (let start = nat (max 0 (int line - 2));
          end' = min (length lines) (line + 2)
      in join [NL] (slice lines start end'))"

text \<open>The table \<^verbatim>\<open>weights\<close> that each score function builds.\<close>

definition weights :: "string \<rightharpoonup> real" where
  "weights = [''HIGH'' \<mapsto> 3, ''MEDIUM'' \<mapsto> 2, ''LOW'' \<mapsto> 1]"

text \<open>
  \<^verbatim>\<open>_get_call_name\<close>, the same text in the zombie and the void detector. It is only
  ever called on a \<^verbatim>\<open>Call\<close> node.
\<close>

fun get_call_name :: "ast \<Rightarrow> string option" where
  "get_call_name (Call (Name ident ctx l) args keywords lineno) = Some ident"
| "get_call_name (Call (Attribute v attr ctx l) args keywords lineno) = Some attr"
| "get_call_name call = None"

section \<open>phantom\_loops.py\<close>

datatype PhantomType =
    WHILE_TRUE_BREAK
  | WHILE_TRUE_RETURN
  | WHILE_TRUE_RAISE
  | INFINITE_ITERATOR_EXIT

fun PhantomType_value :: "PhantomType \<Rightarrow> string" where
  "PhantomType_value WHILE_TRUE_BREAK = ''while_true_break''"
| "PhantomType_value WHILE_TRUE_RETURN = ''while_true_return''"
| "PhantomType_value WHILE_TRUE_RAISE = ''while_true_raise''"
| "PhantomType_value INFINITE_ITERATOR_EXIT = ''infinite_iterator_exit''"

record PhantomLoop =
  p_line :: nat
  p_phantom_type :: PhantomType
  p_code_snippet :: string
  p_severity :: string
  p_description :: string
  p_exit_mechanism :: string
  p_context :: string

record PhantomLoopDetector = Detector +
  phantoms :: "PhantomLoop list"

fun is_infinite_condition :: "ast \<Rightarrow> bool" where
  "is_infinite_condition (Constant (CBool True) lineno) = True"
| "is_infinite_condition test = False"

fun check_immediate_exit :: "ast list \<Rightarrow> (PhantomType \<times> string) option" where
  "check_immediate_exit [] = None"
| "check_immediate_exit (Break lineno # rest) = Some (WHILE_TRUE_BREAK, ''breaks'')"
| "check_immediate_exit (Return v lineno # rest) = Some (WHILE_TRUE_RETURN, ''returns'')"
| "check_immediate_exit (Raise exc cause lineno # rest) = Some (WHILE_TRUE_RAISE, ''raises'')"
| "check_immediate_exit (first_stmt # rest) = None"

definition calculate_severity :: "PhantomType \<Rightarrow> string" where
  "calculate_severity phantom_type =
     (if phantom_type = WHILE_TRUE_BREAK then ''HIGH'' else ''MEDIUM'')"

text \<open>
  \<^verbatim>\<open>PhantomLoopDetector.visit\<close>: the dispatch of \<^verbatim>\<open>NodeVisitor.visit\<close> to
  \<^verbatim>\<open>visit_FunctionDef\<close>, \<^verbatim>\<open>visit_While\<close> or \<^verbatim>\<open>generic_visit\<close>, with the bodies of
  the two methods in place.
\<close>

function phantom_visit :: "nat \<Rightarrow> ast \<Rightarrow> PhantomLoopDetector \<Rightarrow> py_error + PhantomLoopDetector" where
  "phantom_visit frames node d =
     py_call frames (\<lambda>a.
       case node of
         FunctionDef name args body decorator_list returns type_params lineno \<Rightarrow>
           py_call a (\<lambda>b.
             let old_context = current_context d;
                 d1 = d\<lparr>current_context := ''function:'' @ name\<rparr>
             in case generic_visit b phantom_visit node d1 of
                  Inl e \<Rightarrow> Inl e
                | Inr d2 \<Rightarrow> Inr (d2\<lparr>current_context := old_context\<rparr>))
       | While test body orelse lineno \<Rightarrow>
           py_call a (\<lambda>b.
             generic_visit b phantom_visit node
               (if is_infinite_condition test then
                  (case check_immediate_exit body of
                     Some (phantom_type, exit_mechanism) \<Rightarrow>
                       d\<lparr>phantoms := phantoms d @
                         [\<lparr>p_line = lineno,
                           p_phantom_type = phantom_type,
                           p_code_snippet = get_code_snippet (source_lines d) lineno,
                           p_severity = calculate_severity phantom_type,
                           p_description =
                             ''Loop claims infinity but '' @ exit_mechanism @ '' immediately'',
                           p_exit_mechanism = exit_mechanism,
                           p_context = current_context d\<rparr>]\<rparr>
                   | None \<Rightarrow> d)
                else d))
       | _ \<Rightarrow> generic_visit a phantom_visit node d)"
  by pat_completeness auto
termination
  by (relation "measure (\<lambda>(frames, node, d). frames)") auto

declare phantom_visit.simps [simp del]

text \<open>
  \<open>frames\<close> is the number of nested calls that the interpreter still allows where
  \<^verbatim>\<open>detector.visit(tree)\<close> is called.
\<close>

definition detect_phantom_loops ::
  "nat \<Rightarrow> parser \<Rightarrow> string \<Rightarrow> py_error + PhantomLoop list" where
  "detect_phantom_loops frames ast_parse source_code =
     (case ast_parse source_code of
        Inr tree \<Rightarrow>
          (let lines = split NL source_code;
               detector = \<lparr>source_lines = lines, current_context = ''module'', phantoms = []\<rparr>
           in case phantom_visit frames tree detector of
                Inl e \<Rightarrow> (if e = SyntaxError then Inr [] else Inl e)
              | Inr detector' \<Rightarrow> Inr (phantoms detector'))
      | Inl SyntaxError \<Rightarrow> Inr []
      | Inl e \<Rightarrow> Inl e)"

definition calculate_phantom_score :: "PhantomLoop list \<Rightarrow> real" where
  "calculate_phantom_score phantoms' =
     (if phantoms' = [] then 0
      else (let total = sum_list (map (\<lambda>p. dict_get weights (p_severity p) 1) phantoms')
            in min 10 total))"

section \<open>zombie\_orbits.py\<close>

datatype ZombieType =
    DISCARDED_CALL
  | UNUSED_COMPUTATION
  | EMPTY_LOOP
  | NO_RETURN_FUNCTION
  | WRITE_ONLY_VARIABLE

fun ZombieType_value :: "ZombieType \<Rightarrow> string" where
  "ZombieType_value DISCARDED_CALL = ''discarded_call''"
| "ZombieType_value UNUSED_COMPUTATION = ''unused_computation''"
| "ZombieType_value EMPTY_LOOP = ''empty_loop''"
| "ZombieType_value NO_RETURN_FUNCTION = ''no_return_function''"
| "ZombieType_value WRITE_ONLY_VARIABLE = ''write_only_variable''"

record ZombieOrbit =
  z_line :: nat
  z_zombie_type :: ZombieType
  z_code_snippet :: string
  z_severity :: string
  z_description :: string
  z_context :: string

record ZombieOrbitDetector = Detector +
  zombies :: "ZombieOrbit list"
  assigned_vars :: "string set"
  used_vars :: "string set"

definition has_meaningful_return :: "ast \<Rightarrow> bool" where
  "has_meaningful_return func_node =
     list_ex (\<lambda>node. case node of Return (Some v) lineno \<Rightarrow> True | _ \<Rightarrow> False)
       (walk func_node)"

definition has_side_effects :: "ast \<Rightarrow> bool" where
  "has_side_effects func_node =
     list_ex (\<lambda>node.
        (is_Call node \<and>
         (case get_call_name node of
            Some func_name \<Rightarrow>
              func_name \<in> {''print'', ''log'', ''write'', ''append'', ''update'', ''delete''}
          | None \<Rightarrow> False)) \<or>
        (case node of Attribute v attr ctx lineno \<Rightarrow> ctx = Store | _ \<Rightarrow> False))
       (walk func_node)"

text \<open>
  \<^verbatim>\<open>str.lower\<close> is Python's own and a parameter of the zombie detector, as
  \<open>str_lower\<close>.
\<close>

definition is_side_effect_function :: "(string \<Rightarrow> string) \<Rightarrow> string \<Rightarrow> bool" where
  "is_side_effect_function str_lower name =
     (str_lower name \<in>
        {''print'', ''log'', ''write'', ''send'', ''publish'',
         ''append'', ''update'', ''delete'', ''remove'', ''save'',
         ''close'', ''flush'', ''commit'', ''rollback''})"

definition is_empty_loop :: "ast list \<Rightarrow> bool" where
  "is_empty_loop body =
     (if body = [] then True
      else list_all (\<lambda>stmt. is_Pass stmt \<or> is_Continue stmt) body)"

definition append_zombie :: "ZombieOrbit \<Rightarrow> ZombieOrbitDetector \<Rightarrow> ZombieOrbitDetector" where
  "append_zombie z d = d\<lparr>zombies := zombies d @ [z]\<rparr>"

text \<open>The two tests of \<^verbatim>\<open>visit_Expr\<close>, in order.\<close>

definition visit_Expr_checks ::
  "(string \<Rightarrow> string) \<Rightarrow> ast \<Rightarrow> nat \<Rightarrow> ZombieOrbitDetector \<Rightarrow> ZombieOrbitDetector" where
  "visit_Expr_checks str_lower v lineno d =
     (let d1 =
        (if is_Call v then
           (case get_call_name v of
              Some func_name \<Rightarrow>
                if func_name \<noteq> [] \<and> \<not> is_side_effect_function str_lower func_name then
                  append_zombie
                    \<lparr>z_line = lineno,
                     z_zombie_type = DISCARDED_CALL,
                     z_code_snippet = get_code_snippet (source_lines d) lineno,
                     z_severity = ''HIGH'',
                     z_description =
                       ''Function call '' @ [QUOTE] @ func_name @ ''()'' @ [QUOTE] @
                       '' result discarded'',
                     z_context = current_context d\<rparr> d
                else d
            | None \<Rightarrow> d)
         else d)
      in if is_BinOp v then
           append_zombie
             \<lparr>z_line = lineno,
              z_zombie_type = UNUSED_COMPUTATION,
              z_code_snippet = get_code_snippet (source_lines d1) lineno,
              z_severity = ''MEDIUM'',
              z_description = ''Computation result discarded (not assigned or returned)'',
              z_context = current_context d1\<rparr> d1
         else d1)"

text \<open>The test that \<^verbatim>\<open>visit_For\<close> and \<^verbatim>\<open>visit_While\<close> both make.\<close>

definition visit_loop_check :: "ast list \<Rightarrow> nat \<Rightarrow> ZombieOrbitDetector \<Rightarrow> ZombieOrbitDetector" where
  "visit_loop_check body lineno d =
     (if is_empty_loop body then
        append_zombie
          \<lparr>z_line = lineno,
           z_zombie_type = EMPTY_LOOP,
           z_code_snippet = get_code_snippet (source_lines d) lineno,
           z_severity = ''HIGH'',
           z_description = ''Loop executes but body is empty or no-op'',
           z_context = current_context d\<rparr> d
      else d)"

function zombie_visit ::
  "(string \<Rightarrow> string) \<Rightarrow> nat \<Rightarrow> ast \<Rightarrow> ZombieOrbitDetector \<Rightarrow> py_error + ZombieOrbitDetector" where
  "zombie_visit str_lower frames node d =
     py_call frames (\<lambda>a.
       case node of
         FunctionDef name args body decorator_list returns type_params lineno \<Rightarrow>
           py_call a (\<lambda>b.
             let old_context = current_context d;
                 d1 = d\<lparr>current_context := ''function:'' @ name\<rparr>;
                 has_return = has_meaningful_return node;
                 has_effects = has_side_effects node;
                 d2 = (if \<not> has_return \<and> \<not> has_effects then
                         append_zombie
                           \<lparr>z_line = lineno,
                            z_zombie_type = NO_RETURN_FUNCTION,
                            z_code_snippet = get_code_snippet (source_lines d1) lineno,
                            z_severity = ''MEDIUM'',
                            z_description =
                              ''Function '' @ [QUOTE] @ name @ [QUOTE] @
                              '' runs but produces no output or side effects'',
                            z_context = current_context d1\<rparr> d1
                       else d1)
             in case generic_visit b (zombie_visit str_lower) node d2 of
                  Inl e \<Rightarrow> Inl e
                | Inr d3 \<Rightarrow> Inr (d3\<lparr>current_context := old_context\<rparr>))
       | Expr v lineno \<Rightarrow>
           py_call a (\<lambda>b.
             generic_visit b (zombie_visit str_lower) node
               (visit_Expr_checks str_lower v lineno d))
       | For target iter body orelse lineno \<Rightarrow>
           py_call a (\<lambda>b.
             generic_visit b (zombie_visit str_lower) node (visit_loop_check body lineno d))
       | While test body orelse lineno \<Rightarrow>
           py_call a (\<lambda>b.
             generic_visit b (zombie_visit str_lower) node (visit_loop_check body lineno d))
       | _ \<Rightarrow> generic_visit a (zombie_visit str_lower) node d)"
  by pat_completeness auto
termination
  by (relation "measure (\<lambda>(str_lower, frames, node, d). frames)") auto

declare zombie_visit.simps [simp del]

definition detect_zombie_orbits ::
  "(string \<Rightarrow> string) \<Rightarrow> nat \<Rightarrow> parser \<Rightarrow> string \<Rightarrow> py_error + ZombieOrbit list" where
  "detect_zombie_orbits str_lower frames ast_parse source_code =
     (case ast_parse source_code of
        Inr tree \<Rightarrow>
          (let lines = split NL source_code;
               detector = \<lparr>source_lines = lines, current_context = ''module'',
                           zombies = [], assigned_vars = {}, used_vars = {}\<rparr>
           in case zombie_visit str_lower frames tree detector of
                Inl e \<Rightarrow> (if e = SyntaxError then Inr [] else Inl e)
              | Inr detector' \<Rightarrow> Inr (zombies detector'))
      | Inl SyntaxError \<Rightarrow> Inr []
      | Inl e \<Rightarrow> Inl e)"

definition calculate_zombie_score :: "ZombieOrbit list \<Rightarrow> real" where
  "calculate_zombie_score zombies' =
     (if zombies' = [] then 0
      else (let total = sum_list (map (\<lambda>z. dict_get weights (z_severity z) 1) zombies')
            in min 10 total))"

section \<open>evidence\_voids.py\<close>

datatype VoidType =
    SWALLOWED_EXCEPTION
  | BARE_EXCEPT
  | IGNORED_RETURN
  | NO_LOGGING_IN_EXCEPT
  | SILENT_FAILURE

fun VoidType_value :: "VoidType \<Rightarrow> string" where
  "VoidType_value SWALLOWED_EXCEPTION = ''swallowed_exception''"
| "VoidType_value BARE_EXCEPT = ''bare_except''"
| "VoidType_value IGNORED_RETURN = ''ignored_return''"
| "VoidType_value NO_LOGGING_IN_EXCEPT = ''no_logging_in_except''"
| "VoidType_value SILENT_FAILURE = ''silent_failure''"

record EvidenceVoid =
  v_line :: nat
  v_void_type :: VoidType
  v_code_snippet :: string
  v_severity :: string
  v_description :: string
  v_context :: string

record EvidenceVoidDetector = Detector +
  voids :: "EvidenceVoid list"

definition is_swallowed :: "ast list \<Rightarrow> bool" where
  "is_swallowed body =
     (if body = [] then True
      else if length body = 1 \<and> is_Pass (body ! 0) then True
      else if length body = 1 \<and> (is_Continue (body ! 0) \<or> is_Break (body ! 0)) then True
      else False)"

definition has_logging :: "ast list \<Rightarrow> bool" where
  "has_logging body =
     list_ex (\<lambda>node.
        is_Call node \<and>
        (case get_call_name node of
           Some func_name \<Rightarrow>
             func_name \<in> {''log'', ''debug'', ''info'', ''warning'', ''error'',
                          ''critical'', ''exception'', ''print''}
         | None \<Rightarrow> False))
       (walk (Module body []))"

definition is_error_checked :: "ast \<Rightarrow> bool" where
  "is_error_checked call_node = False"

definition fallible :: "string set" where
  "fallible = {''open'', ''urlopen'', ''connect'', ''request'', ''load'', ''parse''}"

definition append_void :: "EvidenceVoid \<Rightarrow> EvidenceVoidDetector \<Rightarrow> EvidenceVoidDetector" where
  "append_void v d = d\<lparr>voids := voids d @ [v]\<rparr>"

text \<open>
  The body of the loop \<^verbatim>\<open>for handler in node.handlers\<close> of \<^verbatim>\<open>visit_Try\<close>. The
  parser puts only \<^verbatim>\<open>ExceptHandler\<close> nodes in that list.
\<close>

definition visit_Try_handler :: "ast \<Rightarrow> EvidenceVoidDetector \<Rightarrow> EvidenceVoidDetector" where
  "visit_Try_handler handler d =
     (case handler of
        ExceptHandler type name body lineno \<Rightarrow>
          (let d1 = (if type = None then
                       append_void
                         \<lparr>v_line = lineno,
                          v_void_type = BARE_EXCEPT,
                          v_code_snippet = get_code_snippet (source_lines d) lineno,
                          v_severity = ''HIGH'',
                          v_description =
                            ''Bare except clause catches all exceptions indiscriminately'',
                          v_context = current_context d\<rparr> d
                     else d);
               d2 = (if is_swallowed body then
                       append_void
                         \<lparr>v_line = lineno,
                          v_void_type = SWALLOWED_EXCEPTION,
                          v_code_snippet = get_code_snippet (source_lines d1) lineno,
                          v_severity = ''HIGH'',
                          v_description =
                            ''Exception caught but ignored (no logging, no re-raise)'',
                          v_context = current_context d1\<rparr> d1
                     else d1)
           in if \<not> has_logging body then
                append_void
                  \<lparr>v_line = lineno,
                   v_void_type = NO_LOGGING_IN_EXCEPT,
                   v_code_snippet = get_code_snippet (source_lines d2) lineno,
                   v_severity = ''MEDIUM'',
                   v_description = ''Exception handler lacks logging (error invisible)'',
                   v_context = current_context d2\<rparr> d2
              else d2)
      | _ \<Rightarrow> d)"

text \<open>The test of \<^verbatim>\<open>visit_Call\<close>.\<close>

definition visit_Call_check :: "ast \<Rightarrow> nat \<Rightarrow> EvidenceVoidDetector \<Rightarrow> EvidenceVoidDetector" where
  "visit_Call_check node lineno d =
     (case get_call_name node of
        Some func_name \<Rightarrow>
          if func_name \<in> fallible then
            (if \<not> is_error_checked node then
               append_void
                 \<lparr>v_line = lineno,
                  v_void_type = SILENT_FAILURE,
                  v_code_snippet = get_code_snippet (source_lines d) lineno,
                  v_severity = ''MEDIUM'',
                  v_description =
                    ''Fallible operation '' @ [QUOTE] @ func_name @ ''()'' @ [QUOTE] @
                    '' lacks error handling'',
                  v_context = current_context d\<rparr> d
             else d)
          else d
      | None \<Rightarrow> d)"

function void_visit ::
  "nat \<Rightarrow> ast \<Rightarrow> EvidenceVoidDetector \<Rightarrow> py_error + EvidenceVoidDetector" where
  "void_visit frames node d =
     py_call frames (\<lambda>a.
       case node of
         FunctionDef name args body decorator_list returns type_params lineno \<Rightarrow>
           py_call a (\<lambda>b.
             let old_context = current_context d;
                 d1 = d\<lparr>current_context := ''function:'' @ name\<rparr>
             in case generic_visit b void_visit node d1 of
                  Inl e \<Rightarrow> Inl e
                | Inr d2 \<Rightarrow> Inr (d2\<lparr>current_context := old_context\<rparr>))
       | Try body handlers orelse finalbody lineno \<Rightarrow>
           py_call a (\<lambda>b.
             generic_visit b void_visit node (fold visit_Try_handler handlers d))
       | Call func args keywords lineno \<Rightarrow>
           py_call a (\<lambda>b.
             generic_visit b void_visit node (visit_Call_check node lineno d))
       | _ \<Rightarrow> generic_visit a void_visit node d)"
  by pat_completeness auto
termination
  by (relation "measure (\<lambda>(frames, node, d). frames)") auto

declare void_visit.simps [simp del]

definition detect_evidence_voids ::
  "nat \<Rightarrow> parser \<Rightarrow> string \<Rightarrow> py_error + EvidenceVoid list" where
  "detect_evidence_voids frames ast_parse source_code =
     (case ast_parse source_code of
        Inr tree \<Rightarrow>
          (let lines = split NL source_code;
               detector = \<lparr>source_lines = lines, current_context = ''module'', voids = []\<rparr>
           in case void_visit frames tree detector of
                Inl e \<Rightarrow> (if e = SyntaxError then Inr [] else Inl e)
              | Inr detector' \<Rightarrow> Inr (voids detector'))
      | Inl SyntaxError \<Rightarrow> Inr []
      | Inl e \<Rightarrow> Inl e)"

definition calculate_void_score :: "EvidenceVoid list \<Rightarrow> real" where
  "calculate_void_score voids' =
     (if voids' = [] then 0
      else (let total = sum_list (map (\<lambda>v. dict_get weights (v_severity v) 1) voids')
            in min 10 total))"

section \<open>dark\_matter\_scanner.py\<close>

text \<open>\<^verbatim>\<open>str(n)\<close> and \<^verbatim>\<open>f"{n}"\<close> for an integer that is not negative.\<close>

definition digit_char :: "nat \<Rightarrow> char" where
  "digit_char n = char_of (48 + n)"

function str_nat :: "nat \<Rightarrow> string" where
  "str_nat n = (if n < 10 then [digit_char n] else str_nat (n div 10) @ [digit_char (n mod 10)])"
  by pat_completeness auto
termination
  by (relation "measure id") auto

declare str_nat.simps [simp del]

text \<open>
  Modelled from the spec: \<^verbatim>\<open>magic_gravity.py\<close> is imported by the scanner and is not
  among the sources. Its finding has the shape of the other three (line, type tag,
  severity, context) and carries the literal's value where they carry a description;
  these are the five attributes the scanner reads. The detector and its score function
  are parameters.
\<close>

record MagicConstant =
  c_line :: nat
  c_value :: py_const
  c_gravity_type_value :: string
  c_severity :: string
  c_context :: string

text \<open>What \<^verbatim>\<open>json.dumps\<close> is given.\<close>

datatype json =
    JConst py_const
  | JInt int
  | JFloat real
  | JStr string
  | JArr "json list"
  | JObj "(string \<times> json) list"

text \<open>
  What the scanner takes from outside this file: Python's parser, the number of nested
  calls that the interpreter still allows where a detector starts its traversal,
  \<^verbatim>\<open>str.lower\<close>, the magic-gravity module, the formatting of a float with \<^verbatim>\<open>:.1f\<close>,
  \<^verbatim>\<open>str\<close> of a literal's value, and \<^verbatim>\<open>json.dumps(..., indent=2)\<close>.
\<close>

record env =
  ast_parse :: parser
  frames_left :: nat
  str_lower :: "string \<Rightarrow> string"
  detect_magic_gravity :: "string \<Rightarrow> py_error + MagicConstant list"
  calculate_dark_mass_score :: "MagicConstant list \<Rightarrow> real"
  fmt_1f :: "real \<Rightarrow> string"
  str_const :: "py_const \<Rightarrow> string"
  json_dumps :: "json \<Rightarrow> string"

text \<open>
  The dictionary \<^verbatim>\<open>self.results\<close> only ever has the keys \<^verbatim>\<open>magic_gravity\<close>,
  \<^verbatim>\<open>phantom_loops\<close>, \<^verbatim>\<open>zombie_orbits\<close>, \<^verbatim>\<open>evidence_voids\<close> and \<^verbatim>\<open>summary\<close>: a record
  of optional entries, all absent in the empty dictionary. Each detector's entry is a
  dictionary with the keys \<^verbatim>\<open>findings\<close>, \<^verbatim>\<open>score\<close> and \<^verbatim>\<open>count\<close>.
\<close>

record 'f DetectorResult =
  findings :: "'f list"
  score :: real
  count :: nat

record ScanSummary =
  total_score :: real
  total_findings :: nat
  summary_filepath :: string

record ScanResults =
  magic_gravity :: "MagicConstant DetectorResult option"
  phantom_loops :: "PhantomLoop DetectorResult option"
  zombie_orbits :: "ZombieOrbit DetectorResult option"
  evidence_voids :: "EvidenceVoid DetectorResult option"
  summary :: "ScanSummary option"

definition empty_results :: ScanResults where
  "empty_results =
     \<lparr>magic_gravity = None, phantom_loops = None, zombie_orbits = None,
      evidence_voids = None, summary = None\<rparr>"

record DarkMatterScanner =
  source_code :: string
  filepath :: string
  results :: ScanResults

text \<open>\<^verbatim>\<open>DarkMatterScanner.__init__\<close>.\<close>

definition new_scanner :: "string \<Rightarrow> string \<Rightarrow> DarkMatterScanner" where
  "new_scanner source_code' filepath' =
     \<lparr>source_code = source_code', filepath = filepath', results = empty_results\<rparr>"

text \<open>The non-ASCII characters of the messages, as their UTF-8 bytes.\<close>

definition GALAXY :: string where
  "GALAXY = [CHR 0xF0, CHR 0x9F, CHR 0x8C, CHR 0x8C]"

definition NEW_MOON :: string where
  "NEW_MOON = [CHR 0xF0, CHR 0x9F, CHR 0x8C, CHR 0x91]"

definition INFINITY :: string where
  "INFINITY = [CHR 0xE2, CHR 0x99, CHR 0xBE, CHR 0xEF, CHR 0xB8, CHR 0x8F]"

definition ZOMBIE :: string where
  "ZOMBIE = [CHR 0xF0, CHR 0x9F, CHR 0xA7, CHR 0x9F]"

definition BAR_CHART :: string where
  "BAR_CHART = [CHR 0xF0, CHR 0x9F, CHR 0x93, CHR 0x8A]"

definition LIGHT_BULB :: string where
  "LIGHT_BULB = [CHR 0xF0, CHR 0x9F, CHR 0x92, CHR 0xA1]"

definition BULLET :: string where
  "BULLET = [CHR 0xE2, CHR 0x80, CHR 0xA2]"

text \<open>
  \<^verbatim>\<open>scan_all\<close>: the four detectors in order, their entries and the summary stored in
  \<^verbatim>\<open>self.results\<close>. The result is the list of the printed messages, one per call of
  \<^verbatim>\<open>print\<close>, and the scanner afterwards. An exception that a detector lets through
  ends the scan and is the result.
\<close>

definition scan_all :: "env \<Rightarrow> DarkMatterScanner \<Rightarrow> py_error + (string list \<times> DarkMatterScanner)" where
  "scan_all E self =
     (case detect_magic_gravity E (source_code self) of
        Inl e \<Rightarrow> Inl e
      | Inr magic_constants \<Rightarrow>
     (case detect_phantom_loops (frames_left E) (ast_parse E) (source_code self) of
        Inl e \<Rightarrow> Inl e
      | Inr phantoms' \<Rightarrow>
     (case detect_zombie_orbits (str_lower E) (frames_left E) (ast_parse E) (source_code self) of
        Inl e \<Rightarrow> Inl e
      | Inr zombies' \<Rightarrow>
     (case detect_evidence_voids (frames_left E) (ast_parse E) (source_code self) of
        Inl e \<Rightarrow> Inl e
      | Inr voids' \<Rightarrow>
        (let magic_score = calculate_dark_mass_score E magic_constants;
             phantom_score = calculate_phantom_score phantoms';
             zombie_score = calculate_zombie_score zombies';
             void_score = calculate_void_score voids';
             total_score' = magic_score + phantom_score + zombie_score + void_score;
             total_findings' = length magic_constants + length phantoms'
                               + length zombies' + length voids';
             printed =
               [[NL] @ GALAXY @ '' Scanning '' @ filepath self @ '' for dark matter...'',
                replicate 70 (CHR ''=''),
                [NL] @ NEW_MOON @ '' Running Magic Gravity detector...'',
                ''   Found '' @ str_nat (length magic_constants)
                  @ '' magic constants (score: '' @ fmt_1f E magic_score @ '')'',
                [NL] @ INFINITY @ ''  Running Phantom Loops detector...'',
                ''   Found '' @ str_nat (length phantoms')
                  @ '' phantom loops (score: '' @ fmt_1f E phantom_score @ '')'',
                [NL] @ ZOMBIE @ '' Running Zombie Orbits detector...'',
                ''   Found '' @ str_nat (length zombies')
                  @ '' zombie orbits (score: '' @ fmt_1f E zombie_score @ '')'',
                [NL] @ BAR_CHART @ '' Running Evidence Voids detector...'',
                ''   Found '' @ str_nat (length voids')
                  @ '' evidence voids (score: '' @ fmt_1f E void_score @ '')'',
                [NL] @ replicate 70 (CHR ''=''),
                [NL] @ GALAXY @ '' TOTAL DARK MATTER SCORE: '' @ fmt_1f E total_score',
                ''   Total findings: '' @ str_nat total_findings']
         in Inr (printed,
              self\<lparr>results := (results self)
                \<lparr>magic_gravity :=
                   Some \<lparr>findings = magic_constants, score = magic_score,
                         count = length magic_constants\<rparr>,
                 phantom_loops :=
                   Some \<lparr>findings = phantoms', score = phantom_score,
                         count = length phantoms'\<rparr>,
                 zombie_orbits :=
                   Some \<lparr>findings = zombies', score = zombie_score,
                         count = length zombies'\<rparr>,
                 evidence_voids :=
                   Some \<lparr>findings = voids', score = void_score,
                         count = length voids'\<rparr>,
                 summary :=
                   Some \<lparr>total_score = total_score', total_findings = total_findings',
                         summary_filepath = filepath self\<rparr>\<rparr>\<rparr>))))))"

text \<open>The four lines that the text report appends for one finding.\<close>

definition magic_entry :: "env \<Rightarrow> MagicConstant \<Rightarrow> string list" where
  "magic_entry E const =
     [[NL] @ ''Line '' @ str_nat (c_line const) @ '' | '' @ c_context const,
      ''  Value: '' @ str_const E (c_value const),
      ''  Type: '' @ c_gravity_type_value const,
      ''  Severity: '' @ c_severity const]"

definition phantom_entry :: "PhantomLoop \<Rightarrow> string list" where
  "phantom_entry loop =
     [[NL] @ ''Line '' @ str_nat (p_line loop) @ '' | '' @ p_context loop,
      ''  Type: '' @ PhantomType_value (p_phantom_type loop),
      ''  Issue: '' @ p_description loop,
      ''  Severity: '' @ p_severity loop]"

definition zombie_entry :: "ZombieOrbit \<Rightarrow> string list" where
  "zombie_entry z =
     [[NL] @ ''Line '' @ str_nat (z_line z) @ '' | '' @ z_context z,
      ''  Type: '' @ ZombieType_value (z_zombie_type z),
      ''  Issue: '' @ z_description z,
      ''  Severity: '' @ z_severity z]"

definition void_entry :: "EvidenceVoid \<Rightarrow> string list" where
  "void_entry v =
     [[NL] @ ''Line '' @ str_nat (v_line v) @ '' | '' @ v_context v,
      ''  Type: '' @ VoidType_value (v_void_type v),
      ''  Issue: '' @ v_description v,
      ''  Severity: '' @ v_severity v]"

text \<open>
  One section of the text report: nothing when the entry is absent or its count is 0,
  else three heading lines and the entries of the first five findings.
\<close>

definition report_section ::
  "env \<Rightarrow> string \<Rightarrow> ('f \<Rightarrow> string list) \<Rightarrow> 'f DetectorResult option \<Rightarrow> string list" where
  "report_section E title entry r =
     (case r of
        None \<Rightarrow> []
      | Some d \<Rightarrow>
          if count d > 0 then
            [[NL] @ replicate 70 (CHR ''-''),
             title @ '' ('' @ str_nat (count d) @ '' findings, score: ''
               @ fmt_1f E (score d) @ '')'',
             replicate 70 (CHR ''-'')]
            @ concat (map entry (take 5 (findings d)))
          else [])"

definition magic_section :: "env \<Rightarrow> ScanResults \<Rightarrow> string list" where
  "magic_section E r =
     report_section E (NEW_MOON @ '' MAGIC GRAVITY'') (magic_entry E) (magic_gravity r)"

definition phantom_section :: "env \<Rightarrow> ScanResults \<Rightarrow> string list" where
  "phantom_section E r =
     report_section E (INFINITY @ ''  PHANTOM LOOPS'') phantom_entry (phantom_loops r)"

definition zombie_section :: "env \<Rightarrow> ScanResults \<Rightarrow> string list" where
  "zombie_section E r =
     report_section E (ZOMBIE @ '' ZOMBIE ORBITS'') zombie_entry (zombie_orbits r)"

definition void_section :: "env \<Rightarrow> ScanResults \<Rightarrow> string list" where
  "void_section E r =
     report_section E (BAR_CHART @ '' EVIDENCE VOIDS'') void_entry (evidence_voids r)"

definition report_header :: "env \<Rightarrow> ScanResults \<Rightarrow> string list" where
  "report_header E r =
     [[NL] @ replicate 70 (CHR ''=''),
      GALAXY @ '' DARK MATTER DETECTION REPORT'',
      replicate 70 (CHR ''=''),
      [NL] @ ''File: ''
        @ (case summary r of None \<Rightarrow> ''unknown'' | Some s \<Rightarrow> summary_filepath s),
      ''Total Dark Matter Score: ''
        @ fmt_1f E (case summary r of None \<Rightarrow> 0 | Some s \<Rightarrow> total_score s),
      ''Total Findings: ''
        @ str_nat (case summary r of None \<Rightarrow> 0 | Some s \<Rightarrow> total_findings s)]"

definition report_footer :: "string list" where
  "report_footer =
     [[NL] @ replicate 70 (CHR ''=''),
      [NL] @ LIGHT_BULB @ '' RECOMMENDATIONS:'',
      ''  '' @ BULLET @ '' Document or remove magic constants'',
      ''  '' @ BULLET @ '' Fix phantom loops claiming false infinity'',
      ''  '' @ BULLET @ '' Eliminate zombie code running without purpose'',
      ''  '' @ BULLET @ '' Add logging/monitoring to evidence voids'',
      [NL] @ ''  Dark matter isn'' @ [QUOTE] @ ''t always bad - but it should be intentional.'',
      ''  Make invisible forces visible through documentation and design.'']"

text \<open>\<^verbatim>\<open>_generate_text_report\<close>: the list \<^verbatim>\<open>lines\<close>, then its lines joined.\<close>

definition text_report_lines :: "env \<Rightarrow> DarkMatterScanner \<Rightarrow> string list" where
  "text_report_lines E self =
     report_header E (results self)
     @ magic_section E (results self)
     @ phantom_section E (results self)
     @ zombie_section E (results self)
     @ void_section E (results self)
     @ report_footer"

definition generate_text_report :: "env \<Rightarrow> DarkMatterScanner \<Rightarrow> string" where
  "generate_text_report E self = join [NL] (text_report_lines E self)"

text \<open>The dictionaries that \<^verbatim>\<open>_generate_json_report\<close> builds for the findings.\<close>

definition magic_json :: "MagicConstant \<Rightarrow> json" where
  "magic_json c =
     JObj [(''line'', JInt (int (c_line c))),
           (''value'', JConst (c_value c)),
           (''type'', JStr (c_gravity_type_value c)),
           (''severity'', JStr (c_severity c)),
           (''context'', JStr (c_context c))]"

definition phantom_json :: "PhantomLoop \<Rightarrow> json" where
  "phantom_json p =
     JObj [(''line'', JInt (int (p_line p))),
           (''type'', JStr (PhantomType_value (p_phantom_type p))),
           (''description'', JStr (p_description p)),
           (''severity'', JStr (p_severity p)),
           (''context'', JStr (p_context p))]"

definition zombie_json :: "ZombieOrbit \<Rightarrow> json" where
  "zombie_json z =
     JObj [(''line'', JInt (int (z_line z))),
           (''type'', JStr (ZombieType_value (z_zombie_type z))),
           (''description'', JStr (z_description z)),
           (''severity'', JStr (z_severity z)),
           (''context'', JStr (z_context z))]"

definition void_json :: "EvidenceVoid \<Rightarrow> json" where
  "void_json v =
     JObj [(''line'', JInt (int (v_line v))),
           (''type'', JStr (VoidType_value (v_void_type v))),
           (''description'', JStr (v_description v)),
           (''severity'', JStr (v_severity v)),
           (''context'', JStr (v_context v))]"

definition detector_json :: "('f \<Rightarrow> json) \<Rightarrow> 'f DetectorResult \<Rightarrow> json" where
  "detector_json to_json d =
     JObj [(''score'', JFloat (score d)),
           (''count'', JInt (int (count d))),
           (''findings'', JArr (map to_json (findings d)))]"

definition summary_json :: "ScanSummary option \<Rightarrow> json" where
  "summary_json s =
     (case s of
        None \<Rightarrow> JObj []
      | Some s' \<Rightarrow>
          JObj [(''total_score'', JFloat (total_score s')),
                (''total_findings'', JInt (int (total_findings s'))),
                (''filepath'', JStr (summary_filepath s'))])"

text \<open>
  \<^verbatim>\<open>json_results\<close> of \<^verbatim>\<open>_generate_json_report\<close>: \<^verbatim>\<open>self.results[...]\<close> raises
  \<^verbatim>\<open>KeyError\<close> when a detector's entry is absent.
\<close>

definition json_results :: "DarkMatterScanner \<Rightarrow> py_error + json" where
  "json_results self =
     (case magic_gravity (results self) of None \<Rightarrow> Inl KeyError | Some magic \<Rightarrow>
      (case phantom_loops (results self) of None \<Rightarrow> Inl KeyError | Some phantom \<Rightarrow>
       (case zombie_orbits (results self) of None \<Rightarrow> Inl KeyError | Some zombie \<Rightarrow>
        (case evidence_voids (results self) of None \<Rightarrow> Inl KeyError | Some void \<Rightarrow>
           Inr (JObj [(''summary'', summary_json (summary (results self))),
                      (''magic_gravity'', detector_json magic_json magic),
                      (''phantom_loops'', detector_json phantom_json phantom),
                      (''zombie_orbits'', detector_json zombie_json zombie),
                      (''evidence_voids'', detector_json void_json void)])))))"

definition generate_json_report :: "env \<Rightarrow> DarkMatterScanner \<Rightarrow> py_error + string" where
  "generate_json_report E self =
     (case json_results self of
        Inl e \<Rightarrow> Inl e
      | Inr j \<Rightarrow> Inr (json_dumps E j))"

definition generate_report :: "env \<Rightarrow> DarkMatterScanner \<Rightarrow> string \<Rightarrow> py_error + string" where
  "generate_report E self format =
     (if format = ''json'' then generate_json_report E self
      else Inr (generate_text_report E self))"


section \<open>Vocabulary of the properties\<close>

text \<open>All nodes of a tree, in the order in which a visitor reaches them.\<close>

function nodes_of :: "ast \<Rightarrow> ast list" where
  "nodes_of node = node # concat (map nodes_of (iter_child_nodes node))"
  by pat_completeness auto
termination
  by (relation "measure size") (auto simp del: iter_child_nodes.simps dest!: size_child)

declare nodes_of.simps [simp del]

text \<open>
  The nesting depth of a tree: 1 for a node without children. A traversal of a tree of
  height \<open>h\<close> needs at most \<open>3 * h + 1\<close> nested calls.
\<close>

function height :: "ast \<Rightarrow> nat" where
  "height node = Suc (fold max (map height (iter_child_nodes node)) 0)"
  by pat_completeness auto
termination
  by (relation "measure size") (auto simp del: iter_child_nodes.simps dest!: size_child)

declare height.simps [simp del]

fun is_FunctionDef :: "ast \<Rightarrow> bool" where
  "is_FunctionDef (FunctionDef name args body decorator_list returns type_params lineno) = True"
| "is_FunctionDef node = False"

fun is_While :: "ast \<Rightarrow> bool" where
  "is_While (While test body orelse lineno) = True"
| "is_While node = False"

text \<open>
  The phantom-loop finding that a node is due, as the specification words it: a
  \<^verbatim>\<open>while\<close> whose condition is the literal \<^verbatim>\<open>True\<close> and whose first body statement is
  \<^verbatim>\<open>break\<close> (HIGH), \<^verbatim>\<open>return\<close> or \<^verbatim>\<open>raise\<close> (MEDIUM) is due one finding on its line;
  every other node is due none.
\<close>

definition is_literal_True :: "ast \<Rightarrow> bool" where
  "is_literal_True test = (case test of Constant (CBool True) l \<Rightarrow> True | _ \<Rightarrow> False)"

definition loop_finding :: "ast \<Rightarrow> (nat \<times> PhantomType \<times> string) list" where
  "loop_finding node =
     (case node of
        While test body orelse lineno \<Rightarrow>
          (if is_literal_True test then
             (case body of
                Break lb # rest \<Rightarrow> [(lineno, WHILE_TRUE_BREAK, ''HIGH'')]
              | Return v lr # rest \<Rightarrow> [(lineno, WHILE_TRUE_RETURN, ''MEDIUM'')]
              | Raise exc cause lr # rest \<Rightarrow> [(lineno, WHILE_TRUE_RAISE, ''MEDIUM'')]
              | _ \<Rightarrow> [])
           else [])
      | _ \<Rightarrow> [])"

text \<open>Line, type tag and severity of a phantom-loop finding.\<close>

definition phantom_key :: "PhantomLoop \<Rightarrow> nat \<times> PhantomType \<times> string" where
  "phantom_key p = (p_line p, p_phantom_type p, p_severity p)"

fun is_Try :: "ast \<Rightarrow> bool" where
  "is_Try (Try body handlers orelse finalbody lineno) = True"
| "is_Try node = False"

text \<open>Line, type tag and severity of an evidence-void finding.\<close>

definition void_key :: "EvidenceVoid \<Rightarrow> nat \<times> VoidType \<times> string" where
  "void_key v = (v_line v, v_void_type v, v_severity v)"

text \<open>
  The keys of the findings that one handler and one node add, used to state what the
  whole traversal returns.
\<close>

definition handler_voids :: "ast \<Rightarrow> (nat \<times> VoidType \<times> string) list" where
  "handler_voids handler =
     (case handler of
        ExceptHandler type name body lineno \<Rightarrow>
          (if type = None then [(lineno, BARE_EXCEPT, ''HIGH'')] else [])
          @ (if is_swallowed body then [(lineno, SWALLOWED_EXCEPTION, ''HIGH'')] else [])
          @ (if \<not> has_logging body then [(lineno, NO_LOGGING_IN_EXCEPT, ''MEDIUM'')] else [])
      | _ \<Rightarrow> [])"

definition node_voids :: "ast \<Rightarrow> (nat \<times> VoidType \<times> string) list" where
  "node_voids node =
     (case node of
        Try body handlers orelse finalbody lineno \<Rightarrow> concat (map handler_voids handlers)
      | Call func args keywords lineno \<Rightarrow>
          (case get_call_name node of
             Some func_name \<Rightarrow>
               if func_name \<in> fallible then [(lineno, SILENT_FAILURE, ''MEDIUM'')] else []
           | None \<Rightarrow> [])
      | _ \<Rightarrow> [])"

text \<open>Reading a JSON object.\<close>

fun obj_get :: "string \<Rightarrow> json \<Rightarrow> json option" where
  "obj_get k (JObj kvs) = map_of kvs k"
| "obj_get k j = None"

definition json_findings :: "string \<Rightarrow> json \<Rightarrow> json list option" where
  "json_findings name j =
     (case obj_get name j of
        Some d \<Rightarrow> (case obj_get ''findings'' d of Some (JArr fs) \<Rightarrow> Some fs | _ \<Rightarrow> None)
      | None \<Rightarrow> None)"

definition json_count :: "string \<Rightarrow> json \<Rightarrow> int option" where
  "json_count name j =
     (case obj_get name j of
        Some d \<Rightarrow> (case obj_get ''count'' d of Some (JInt n) \<Rightarrow> Some n | _ \<Rightarrow> None)
      | None \<Rightarrow> None)"

text \<open>The line of the text report that opens the entry of one finding.\<close>

definition is_entry_line :: "string \<Rightarrow> bool" where
  "is_entry_line l = (take 6 l = [NL] @ ''Line '')"

definition shown_findings :: "string list \<Rightarrow> nat" where
  "shown_findings lines = length (filter is_entry_line lines)"


text \<open>
  A visitor has the common shape when, on every node, it either has a
  \<^verbatim>\<open>visit_\<close> method that prepares the state, calls \<^verbatim>\<open>generic_visit\<close>
  and finishes, or has none and \<^verbatim>\<open>visit\<close> calls \<^verbatim>\<open>generic_visit\<close> itself.
\<close>

definition visitor_shape :: "(nat \<Rightarrow> ast \<Rightarrow> 's \<Rightarrow> py_error + 's) \<Rightarrow> bool" where
  "visitor_shape v \<longleftrightarrow>
     (\<forall>node.
        (\<exists>pre post. \<forall>frames d. v frames node d =
           py_call frames (\<lambda>a. py_call a (\<lambda>b.
             case generic_visit b v node (pre d) of
               Inl e \<Rightarrow> Inl e
             | Inr d2 \<Rightarrow> Inr (post d d2))))
      \<or> (\<forall>frames d. v frames node d = py_call frames (\<lambda>a. generic_visit a v node d)))"


section \<open>Test inputs\<close>

text \<open>A parser that returns the given tree.\<close>

definition parse_as :: "ast \<Rightarrow> parser" where
  "parse_as tree src = Inr tree"

text \<open>A parser that rejects the text \<^verbatim>\<open>while\<close> and accepts the empty module.\<close>

definition toy_parse :: parser where
  "toy_parse src =
     (if src = ''while'' then Inl SyntaxError else Inr (Module [] []))"

text \<open>The program \<^verbatim>\<open>while True: break\<close> and a parser that returns its tree.\<close>

definition while_true_break :: ast where
  "while_true_break = Module [While (Constant (CBool True) 1) [Break 1] [] 1] []"

definition parse_while_true_break :: parser where
  "parse_while_true_break src = Inr while_true_break"

text \<open>
  Three loops \<^verbatim>\<open>while True\<close>: one that breaks at once, one that works before it
  breaks, and one in a function \<^verbatim>\<open>f\<close> that returns at once.
\<close>

definition three_loops :: ast where
  "three_loops =
     Module
       [While (Constant (CBool True) 1) [Break 2] [] 1,
        While (Constant (CBool True) 3)
          [Expr (Call (Name ''work'' Load 4) [] [] 4) 4, Break 5] [] 3,
        FunctionDef ''f'' (Other [])
          [While (Constant (CBool True) 7) [Return None 8] [] 7] [] None [] 6] []"

definition three_loops_src :: string where
  "three_loops_src =
     join [NL]
       [''while True:'', ''    break'', ''while True:'', ''    work()'', ''    break'',
        ''def f():'', ''    while True:'', ''        return'']"

text \<open>The program \<^verbatim>\<open>while 1: break\<close> and a parser that returns its tree.\<close>

definition while_one_break :: ast where
  "while_one_break = Module [While (Constant (CInt 1) 1) [Break 1] [] 1] []"

definition parse_while_one_break :: parser where
  "parse_while_one_break src = Inr while_one_break"

text \<open>The program \<^verbatim>\<open>try: pass\<close>, \<^verbatim>\<open>except: pass\<close> on four lines.\<close>

definition try_except_pass :: ast where
  "try_except_pass =
     Module [Try [Pass 2] [ExceptHandler None None [Pass 4] 3] [] [] 1] []"

definition try_except_pass_src :: string where
  "try_except_pass_src =
     ''try:'' @ [NL] @ ''    pass'' @ [NL] @ ''except:'' @ [NL] @ ''    pass''"

text \<open>The same program with two \<^verbatim>\<open>pass\<close> statements in the handler.\<close>

definition try_except_two_pass :: ast where
  "try_except_two_pass =
     Module [Try [Pass 2] [ExceptHandler None None [Pass 4, Pass 5] 3] [] [] 1] []"

definition try_except_two_pass_src :: string where
  "try_except_two_pass_src =
     ''try:'' @ [NL] @ ''    pass'' @ [NL] @ ''except:'' @ [NL] @ ''    pass''
     @ [NL] @ ''    pass''"

text \<open>
  A call of \<^verbatim>\<open>open\<close> inside a \<^verbatim>\<open>try\<close> whose handler names the exception and prints.
\<close>

definition try_open :: ast where
  "try_open =
     Module
       [Try [Expr (Call (Name ''open'' Load 2) [Constant (CStr ''f'') 2] [] 2) 2]
            [ExceptHandler (Some (Name ''OSError'' Load 3)) None
               [Expr (Call (Name ''print'' Load 4) [Constant (CStr ''failed'') 4] [] 4) 4] 3]
            [] [] 1] []"

definition try_open_src :: string where
  "try_open_src =
     ''try:'' @ [NL] @ ''    open('' @ [QUOTE] @ ''f'' @ [QUOTE] @ '')'' @ [NL]
     @ ''except OSError:'' @ [NL]
     @ ''    print('' @ [QUOTE] @ ''failed'' @ [QUOTE] @ '')''"

text \<open>Lower case for the ASCII letters, for the tests.\<close>

definition ascii_lower :: "string \<Rightarrow> string" where
  "ascii_lower s =
     map (\<lambda>c. let n = (of_char c :: nat)
               in if 65 \<le> n \<and> n \<le> 90 then char_of (n + 32) else c) s"

text \<open>An environment for the tests, with 1000 frames for each traversal.\<close>

definition toy_fmt_1f :: "real \<Rightarrow> string" where
  "toy_fmt_1f x = str_nat (nat \<lfloor>x\<rfloor>) @ ''.'' @ str_nat (nat \<lfloor>x * 10\<rfloor> mod 10)"

definition toy_env :: "ast \<Rightarrow> env" where
  "toy_env tree =
     \<lparr>ast_parse = parse_as tree,
      frames_left = 1000,
      str_lower = ascii_lower,
      detect_magic_gravity = (\<lambda>s. Inr []),
      calculate_dark_mass_score = (\<lambda>cs. 0),
      fmt_1f = toy_fmt_1f,
      str_const = (\<lambda>c. ''?''),
      json_dumps = (\<lambda>j. ''{}'')\<rparr>"

text \<open>Six loops \<^verbatim>\<open>while True: break\<close>, on lines 1 to 6.\<close>

definition six_loops :: ast where
  "six_loops =
     Module (map (\<lambda>l. While (Constant (CBool True) l) [Break l] [] l) [1, 2, 3, 4, 5, 6]) []"


definition six_loops_src :: string where
  "six_loops_src = join [NL] (replicate 6 ''while True: break'')"

text \<open>
  A \<^verbatim>\<open>try\<close> with two handlers: \<^verbatim>\<open>except ValueError\<close>, which prints, on line 3, and
  \<^verbatim>\<open>except: pass\<close> on line 5.
\<close>

definition try_two_handlers :: ast where
  "try_two_handlers =
     Module
       [Try [Pass 2]
            [ExceptHandler (Some (Name ''ValueError'' Load 3)) None
               [Expr (Call (Name ''print'' Load 4) [Constant (CStr ''bad'') 4] [] 4) 4] 3,
             ExceptHandler None None [Pass 6] 5]
            [] [] 1] []"

definition try_two_handlers_src :: string where
  "try_two_handlers_src =
     join [NL]
       [''try:'', ''    pass'', ''except ValueError:'',
        ''    print('' @ [QUOTE] @ ''bad'' @ [QUOTE] @ '')'', ''except:'', ''    pass'']"

text \<open>
  \<^verbatim>\<open>try: pass\<close> with the handler \<^verbatim>\<open>except* ValueError: pass\<close>: a \<^verbatim>\<open>TryStar\<close> node, one
  of the node classes that are \<open>Other\<close>.
\<close>

definition try_star :: ast where
  "try_star =
     Module
       [Other [Pass 2, ExceptHandler (Some (Name ''ValueError'' Load 3)) None [Pass 4] 3]] []"

definition try_star_src :: string where
  "try_star_src =
     join [NL] [''try:'', ''    pass'', ''except* ValueError:'', ''    pass'']"

section \<open>Scores\<close>

lemma weights_nonneg: "0 \<le> dict_get weights s 1"
  by (simp add: dict_get_def weights_def)

lemma capped_sum:
  fixes ws :: "real list"
  assumes "\<forall>w \<in> set ws. 0 \<le> w"
  shows "0 \<le> (if ws = [] then 0 else min 10 (sum_list ws))"
    and "(if ws = [] then 0 else min 10 (sum_list ws)) \<le> 10"
    and "(if ws = [] then 0 else min 10 (sum_list ws)) = min 10 (sum_list ws)"
    and "0 \<le> w \<Longrightarrow> (if ws = [] then 0 else min 10 (sum_list ws))
           \<le> (if ws @ [w] = [] then 0 else min 10 (sum_list (ws @ [w])))"
  using assms by (auto simp: sum_list_nonneg min_def)

text \<open>
  C1. Each of the three score functions returns a value between 0 and 10, returns 0 on
  the empty list, equals the sum of the severity weights of the findings capped at 10
  (HIGH weighs 3, MEDIUM 2, LOW 1; the table's default for any other string is 1), and
  does not decrease when a finding of any severity is appended.
\<close>

theorem score_bounded_monotone:
  "0 \<le> calculate_phantom_score P \<and> calculate_phantom_score P \<le> 10
   \<and> calculate_phantom_score [] = 0
   \<and> calculate_phantom_score P
       = min 10 (sum_list (map (\<lambda>p. dict_get weights (p_severity p) 1) P))
   \<and> calculate_phantom_score P \<le> calculate_phantom_score (P @ [p])
   \<and> 0 \<le> calculate_zombie_score Z \<and> calculate_zombie_score Z \<le> 10
   \<and> calculate_zombie_score [] = 0
   \<and> calculate_zombie_score Z
       = min 10 (sum_list (map (\<lambda>z. dict_get weights (z_severity z) 1) Z))
   \<and> calculate_zombie_score Z \<le> calculate_zombie_score (Z @ [z])
   \<and> 0 \<le> calculate_void_score V \<and> calculate_void_score V \<le> 10
   \<and> calculate_void_score [] = 0
   \<and> calculate_void_score V
       = min 10 (sum_list (map (\<lambda>v. dict_get weights (v_severity v) 1) V))
   \<and> calculate_void_score V \<le> calculate_void_score (V @ [v])
   \<and> dict_get weights ''HIGH'' 1 = 3 \<and> dict_get weights ''MEDIUM'' 1 = 2
   \<and> dict_get weights ''LOW'' 1 = 1"
proof -
  have P: "\<forall>w \<in> set (map (\<lambda>p. dict_get weights (p_severity p) 1) P). 0 \<le> w"
    by (simp add: weights_nonneg)
  have Z: "\<forall>w \<in> set (map (\<lambda>z. dict_get weights (z_severity z) 1) Z). 0 \<le> w"
    by (simp add: weights_nonneg)
  have V: "\<forall>w \<in> set (map (\<lambda>v. dict_get weights (v_severity v) 1) V). 0 \<le> w"
    by (simp add: weights_nonneg)
  have W: "dict_get weights ''HIGH'' 1 = 3 \<and> dict_get weights ''MEDIUM'' 1 = 2
     \<and> dict_get weights ''LOW'' 1 = 1"
    by (simp add: dict_get_def weights_def)
  show ?thesis
    unfolding calculate_phantom_score_def calculate_zombie_score_def
      calculate_void_score_def Let_def
    using capped_sum [OF P] capped_sum(4) [OF P, of "dict_get weights (p_severity p) 1"]
      capped_sum [OF Z] capped_sum(4) [OF Z, of "dict_get weights (z_severity z) 1"]
      capped_sum [OF V] capped_sum(4) [OF V, of "dict_get weights (v_severity v) 1"]
      weights_nonneg W
    by simp
qed

section \<open>Text that does not parse\<close>

text \<open>
  C2. When parsing the text raises a syntax error, each of the three detector entry
  points returns the empty list of findings, and returns it normally: no error reaches
  the caller. This holds whatever the interpreter's recursion limit and \<^verbatim>\<open>str.lower\<close>
  are.
\<close>

theorem syntax_error_gives_no_findings:
  assumes "parse src = Inl SyntaxError"
  shows "detect_phantom_loops frames parse src = Inr []
    \<and> detect_zombie_orbits lw frames parse src = Inr []
    \<and> detect_evidence_voids frames parse src = Inr []"
  using assms
  by (simp add: detect_phantom_loops_def detect_zombie_orbits_def detect_evidence_voids_def)

theorem syntax_error_gives_no_findings_witness:
  "toy_parse ''while'' = Inl SyntaxError
   \<and> detect_phantom_loops 1000 toy_parse ''while'' = Inr []
   \<and> detect_zombie_orbits ascii_lower 1000 toy_parse ''while'' = Inr []
   \<and> detect_evidence_voids 1000 toy_parse ''while'' = Inr []"
proof -
  have h: "toy_parse ''while'' = Inl SyntaxError" by (simp add: toy_parse_def)
  show ?thesis
    using h syntax_error_gives_no_findings [of toy_parse "''while''" 1000 ascii_lower, OF h]
    by simp
qed

section \<open>The snippet window\<close>

text \<open>
  C3. The snippet of a finding at line 4 of a file of seven lines: the code returns
  lines 3 to 6 (one line before the triggering line and two after it), not the
  window of lines 2 to 6 that has two lines on each side.
\<close>

theorem snippet_line4_of_7:
  "get_code_snippet [''l1'', ''l2'', ''l3'', ''l4'', ''l5'', ''l6'', ''l7''] 4
     = ''l3'' @ [NL] @ ''l4'' @ [NL] @ ''l5'' @ [NL] @ ''l6''
   \<and> get_code_snippet [''l1'', ''l2'', ''l3'', ''l4'', ''l5'', ''l6'', ''l7''] 4
     \<noteq> ''l2'' @ [NL] @ ''l3'' @ [NL] @ ''l4'' @ [NL] @ ''l5'' @ [NL] @ ''l6''"
  by (simp add: get_code_snippet_def slice_def)

section \<open>Traversals\<close>

lemma py_call_Inr: "py_call frames f = Inr x \<longleftrightarrow> (\<exists>a. frames = Suc a \<and> f a = Inr x)"
  by (cases frames) (simp_all add: py_call_def)

lemma py_call_Suc [simp]: "py_call (Suc a) f = f a"
  by (simp add: py_call_def)

lemma py_call_0 [simp]: "py_call 0 f = Inl RecursionError"
  by (simp add: py_call_def)

lemma py_call_pos: "0 < frames \<Longrightarrow> py_call frames f = f (frames - 1)"
  by (cases frames) simp_all

lemma py_call_error:
  "py_call frames f = Inl e \<Longrightarrow> (\<And>a. f a = Inl e \<Longrightarrow> e = RecursionError) \<Longrightarrow> e = RecursionError"
  by (cases frames) simp_all

lemma visit_each_sound:
  assumes "visit_each v cs d = Inr d'"
    and "\<And>c s s'. c \<in> set cs \<Longrightarrow> v c s = Inr s' \<Longrightarrow> I s' = I s \<and> K s' = K s @ F c"
  shows "I d' = I d \<and> K d' = K d @ concat (map F cs)"
  using assms
proof (induction cs arbitrary: d)
  case Nil
  then show ?case by simp
next
  case (Cons c cs)
  from Cons.prems(1) obtain s where s: "v c d = Inr s" and r: "visit_each v cs s = Inr d'"
    by (auto split: sum.splits)
  have 1: "I s = I d \<and> K s = K d @ F c" using Cons.prems(2) [of c d s] s by simp
  have 2: "I d' = I s \<and> K d' = K s @ concat (map F cs)"
  proof (rule Cons.IH [OF r])
    fix c' t t'
    assume "c' \<in> set cs" and "v c' t = Inr t'"
    then show "I t' = I t \<and> K t' = K t @ F c'"
      using Cons.prems(2) [of c' t t'] by simp
  qed
  from 1 2 show ?case by simp
qed

lemma generic_visit_sound:
  assumes "generic_visit frames v node d = Inr d'"
    and "\<And>a c s s'. a < frames \<Longrightarrow> c \<in> set (iter_child_nodes node) \<Longrightarrow> v a c s = Inr s'
          \<Longrightarrow> I s' = I s \<and> K s' = K s @ F c"
  shows "I d' = I d \<and> K d' = K d @ concat (map F (iter_child_nodes node))"
proof -
  from assms(1) obtain a where a: "frames = Suc a"
    and r: "visit_each (v a) (iter_child_nodes node) d = Inr d'"
    by (auto simp: generic_visit_def py_call_Inr)
  show ?thesis
    using visit_each_sound [OF r, of I K F] assms(2) [of a] a by simp
qed

lemma visit_each_returns:
  "(\<And>c s. c \<in> set cs \<Longrightarrow> \<exists>s'. v c s = Inr s') \<Longrightarrow> \<exists>d'. visit_each v cs d = Inr d'"
proof (induction cs arbitrary: d)
  case Nil
  show ?case by simp
next
  case (Cons c cs)
  from Cons.prems [of c d] obtain s where s: "v c d = Inr s" by auto
  from Cons.IH [of s] Cons.prems obtain d' where "visit_each v cs s = Inr d'" by auto
  with s show ?case by simp
qed

lemma generic_visit_returns:
  assumes "2 \<le> frames"
    and "\<And>c s. c \<in> set (iter_child_nodes node) \<Longrightarrow> \<exists>s'. v (frames - 1) c s = Inr s'"
  shows "\<exists>d'. generic_visit frames v node d = Inr d'"
proof -
  from assms(1) obtain b where f: "frames = Suc (Suc b)"
    by (metis One_nat_def Suc_1 Suc_le_D Suc_le_mono)
  show ?thesis
    unfolding generic_visit_def f
    using visit_each_returns [of "iter_child_nodes node" "v (Suc b)" d] assms(2) f by simp
qed

lemma visit_each_error:
  assumes "visit_each v cs d = Inl e"
    and "\<And>c s. c \<in> set cs \<Longrightarrow> v c s = Inl e \<Longrightarrow> e = RecursionError"
  shows "e = RecursionError"
  using assms
proof (induction cs arbitrary: d)
  case Nil
  then show ?case by simp
next
  case (Cons c cs)
  show ?case
  proof (cases "v c d")
    case (Inl e')
    with Cons.prems(1) have "v c d = Inl e" by simp
    then show ?thesis using Cons.prems(2) [of c d] by simp
  next
    case (Inr s)
    with Cons.prems(1) have r: "visit_each v cs s = Inl e" by simp
    show ?thesis
    proof (rule Cons.IH [OF r])
      fix c' t
      assume "c' \<in> set cs" and "v c' t = Inl e"
      then show "e = RecursionError" using Cons.prems(2) [of c' t] by simp
    qed
  qed
qed

lemma generic_visit_error:
  assumes "generic_visit frames v node d = Inl e"
    and "\<And>a c s. a < frames \<Longrightarrow> c \<in> set (iter_child_nodes node) \<Longrightarrow> v a c s = Inl e
          \<Longrightarrow> e = RecursionError"
  shows "e = RecursionError"
proof (cases frames)
  case 0
  with assms(1) show ?thesis by (simp add: generic_visit_def)
next
  case (Suc a)
  show ?thesis
  proof (cases a)
    case 0
    with Suc assms(1) show ?thesis by (simp add: generic_visit_def)
  next
    case (Suc b)
    with \<open>frames = Suc a\<close> assms(1)
    have "visit_each (v a) (iter_child_nodes node) d = Inl e"
      by (simp add: generic_visit_def)
    then show ?thesis
    proof (rule visit_each_error)
      fix c s
      assume "c \<in> set (iter_child_nodes node)" and "v a c s = Inl e"
      then show "e = RecursionError"
        using assms(2) [of a c s] \<open>frames = Suc a\<close> by simp
    qed
  qed
qed

lemma height_child: "c \<in> set (iter_child_nodes node) \<Longrightarrow> height c < height node"
proof -
  have m: "x \<in> set xs \<Longrightarrow> x \<le> fold max xs (k::nat)" for x xs k
  proof (induction xs arbitrary: k)
    case Nil
    then show ?case by simp
  next
    case (Cons y ys)
    have mono: "k \<le> fold max ys k" for k
      by (induction ys arbitrary: k) (auto intro: order_trans [OF max.cobounded2])
    from Cons show ?case
      using mono [of "max y k"] by (auto intro: order_trans)
  qed
  assume "c \<in> set (iter_child_nodes node)"
  then have "height c \<le> fold max (map height (iter_child_nodes node)) 0"
    by (intro m) simp
  then show ?thesis by (subst (2) height.simps) simp
qed

lemma height_pos: "0 < height node"
  by (subst height.simps) simp

section \<open>The phantom-loop detector\<close>

lemma py_call2_Inr:
  "py_call frames (\<lambda>a. py_call a f) = Inr x \<longleftrightarrow> (\<exists>b. frames = Suc (Suc b) \<and> f b = Inr x)"
  by (auto simp: py_call_Inr)

lemma phantom_visit_FunctionDef:
  "phantom_visit frames (FunctionDef name args body dl returns tps lineno) d =
     py_call frames (\<lambda>a. py_call a (\<lambda>b.
       case generic_visit b phantom_visit (FunctionDef name args body dl returns tps lineno)
              (d\<lparr>current_context := ''function:'' @ name\<rparr>) of
         Inl e \<Rightarrow> Inl e
       | Inr d2 \<Rightarrow> Inr (d2\<lparr>current_context := current_context d\<rparr>)))"
  by (subst phantom_visit.simps) (simp add: Let_def)

lemma phantom_visit_While:
  "phantom_visit frames (While test body orelse lineno) d =
     py_call frames (\<lambda>a. py_call a (\<lambda>b.
       generic_visit b phantom_visit (While test body orelse lineno)
         (if is_infinite_condition test then
            (case check_immediate_exit body of
               Some (phantom_type, exit_mechanism) \<Rightarrow>
                 d\<lparr>phantoms := phantoms d @
                   [\<lparr>p_line = lineno,
                     p_phantom_type = phantom_type,
                     p_code_snippet = get_code_snippet (source_lines d) lineno,
                     p_severity = calculate_severity phantom_type,
                     p_description =
                       ''Loop claims infinity but '' @ exit_mechanism @ '' immediately'',
                     p_exit_mechanism = exit_mechanism,
                     p_context = current_context d\<rparr>]\<rparr>
             | None \<Rightarrow> d)
          else d)))"
  by (subst phantom_visit.simps) simp

lemma phantom_visit_other:
  "\<not> is_FunctionDef node \<Longrightarrow> \<not> is_While node \<Longrightarrow>
   phantom_visit frames node d = py_call frames (\<lambda>a. generic_visit a phantom_visit node d)"
  by (subst phantom_visit.simps) (cases node; simp)

lemma is_literal_True_eq: "is_literal_True test = is_infinite_condition test"
  unfolding is_literal_True_def
  by (cases test rule: is_infinite_condition.cases) simp_all

lemma loop_finding_While:
  "loop_finding (While test body orelse lineno) =
    (if is_infinite_condition test then
       (case check_immediate_exit body of
          Some (phantom_type, exit_mechanism) \<Rightarrow>
            [(lineno, phantom_type, calculate_severity phantom_type)]
        | None \<Rightarrow> [])
     else [])"
  unfolding loop_finding_def is_literal_True_eq
  by (cases body rule: check_immediate_exit.cases) (simp_all add: calculate_severity_def)

lemma loop_finding_other: "\<not> is_While node \<Longrightarrow> loop_finding node = []"
  unfolding loop_finding_def by (cases node) simp_all

lemma concat_map_concat:
  "concat (map f (concat xss)) = concat (map (\<lambda>xs. concat (map f xs)) xss)"
  by (induction xss) simp_all

lemma three_kinds:
  obtains (F) "is_FunctionDef node" | (W) "is_While node"
    | (other) "\<not> is_FunctionDef node" "\<not> is_While node"
  by blast

text \<open>What a traversal that returns has done.\<close>

lemma phantom_sound:
  "phantom_visit frames node d = Inr d' \<Longrightarrow>
     (source_lines d', current_context d') = (source_lines d, current_context d)
   \<and> map phantom_key (phantoms d')
       = map phantom_key (phantoms d) @ concat (map loop_finding (nodes_of node))"
proof (induction frames arbitrary: node d d' rule: less_induct)
  case (less frames)
  let ?I = "\<lambda>s::PhantomLoopDetector. (source_lines s, current_context s)"
  let ?K = "\<lambda>s. map phantom_key (phantoms s)"
  let ?F = "\<lambda>c. concat (map loop_finding (nodes_of c))"
  have g: "?I s' = ?I s \<and> ?K s' = ?K s @ concat (map ?F (iter_child_nodes node))"
    if "generic_visit b phantom_visit node s = Inr s'" and "b < frames" for b s s'
  proof (rule generic_visit_sound [OF that(1), of ?I ?K ?F])
    fix a c t t'
    assume "a < b" and "phantom_visit a c t = Inr t'"
    then show "?I t' = ?I t \<and> ?K t' = ?K t @ ?F c"
      using less.IH [of a c t t'] that(2) by simp
  qed
  have n: "concat (map loop_finding (nodes_of node))
      = loop_finding node @ concat (map ?F (iter_child_nodes node))"
    by (subst nodes_of.simps) (simp add: concat_map_concat comp_def)
  show ?case
  proof (cases node rule: three_kinds)
    case F
    then obtain name args body dl returns tps lineno
      where node: "node = FunctionDef name args body dl returns tps lineno"
      by (cases node) simp_all
    from less.prems have "\<exists>b. frames = Suc (Suc b) \<and>
        (case generic_visit b phantom_visit node
               (d\<lparr>current_context := ''function:'' @ name\<rparr>) of
           Inl e \<Rightarrow> Inl e
         | Inr d2 \<Rightarrow> Inr (d2\<lparr>current_context := current_context d\<rparr>)) = Inr d'"
      unfolding node phantom_visit_FunctionDef py_call2_Inr .
    then obtain b where b: "frames = Suc (Suc b)"
      and c: "(case generic_visit b phantom_visit node
               (d\<lparr>current_context := ''function:'' @ name\<rparr>) of
           Inl e \<Rightarrow> Inl e
         | Inr d2 \<Rightarrow> Inr (d2\<lparr>current_context := current_context d\<rparr>)) = Inr d'"
      by blast
    then obtain d2 where r: "generic_visit b phantom_visit node
               (d\<lparr>current_context := ''function:'' @ name\<rparr>) = Inr d2"
      and d': "d' = d2\<lparr>current_context := current_context d\<rparr>"
      by (cases "generic_visit b phantom_visit node
               (d\<lparr>current_context := ''function:'' @ name\<rparr>)") auto
    have lf: "loop_finding node = []" by (simp add: node loop_finding_other)
    from g [OF r] b show ?thesis unfolding n lf d' by simp
  next
    case W
    then obtain test body orelse lineno where node: "node = While test body orelse lineno"
      by (cases node) simp_all
    let ?d1 = "if is_infinite_condition test then
            (case check_immediate_exit body of
               Some (phantom_type, exit_mechanism) \<Rightarrow>
                 d\<lparr>phantoms := phantoms d @
                   [\<lparr>p_line = lineno,
                     p_phantom_type = phantom_type,
                     p_code_snippet = get_code_snippet (source_lines d) lineno,
                     p_severity = calculate_severity phantom_type,
                     p_description =
                       ''Loop claims infinity but '' @ exit_mechanism @ '' immediately'',
                     p_exit_mechanism = exit_mechanism,
                     p_context = current_context d\<rparr>]\<rparr>
             | None \<Rightarrow> d)
          else d"
    from less.prems have "\<exists>b. frames = Suc (Suc b) \<and>
        generic_visit b phantom_visit node ?d1 = Inr d'"
      unfolding node phantom_visit_While py_call2_Inr .
    then obtain b where b: "frames = Suc (Suc b)"
      and r: "generic_visit b phantom_visit node ?d1 = Inr d'"
      by blast
    have k: "?I ?d1 = ?I d \<and> ?K ?d1 = ?K d @ loop_finding node"
      unfolding node loop_finding_While
      by (simp add: phantom_key_def split: option.splits)
    from g [OF r] b k show ?thesis unfolding n by simp
  next
    case other
    from less.prems have "\<exists>a. frames = Suc a \<and>
        generic_visit a phantom_visit node d = Inr d'"
      unfolding phantom_visit_other [OF other] py_call_Inr .
    then obtain a where a: "frames = Suc a"
      and r: "generic_visit a phantom_visit node d = Inr d'"
      by blast
    have lf: "loop_finding node = []" using other(2) by (rule loop_finding_other)
    from g [OF r] a show ?thesis unfolding n lf by simp
  qed
qed

text \<open>A traversal with enough frames returns.\<close>

lemma phantom_returns:
  "3 * height node + 1 \<le> frames \<Longrightarrow> \<exists>d'. phantom_visit frames node d = Inr d'"
proof (induction node arbitrary: frames d rule: measure_induct_rule [where f = size])
  case (less node)
  have kids: "\<exists>s'. phantom_visit k c s = Inr s'"
    if "c \<in> set (iter_child_nodes node)" and "3 * height node \<le> k + 2" for c k s
    using less.IH [of c k s] size_child [OF that(1)] height_child [OF that(1)] that(2)
    by simp
  have g: "\<exists>s'. generic_visit b phantom_visit node s = Inr s'"
    if "3 * height node \<le> b + 1" for b s
  proof (rule generic_visit_returns)
    show "2 \<le> b" using that height_pos [of node] by simp
    fix c t
    assume "c \<in> set (iter_child_nodes node)"
    then show "\<exists>s'. phantom_visit (b - 1) c t = Inr s'"
      using kids [of c "b - 1" t] that height_pos [of node] by simp
  qed
  define b where "b = frames - 2"
  have b: "frames = Suc (Suc b)" "3 * height node \<le> b + 1"
    using less.prems height_pos [of node] by (simp_all add: b_def)
  show ?case
  proof (cases node rule: three_kinds)
    case F
    then obtain name args body dl returns tps lineno
      where node: "node = FunctionDef name args body dl returns tps lineno"
      by (cases node) simp_all
    from g [OF b(2), of "d\<lparr>current_context := ''function:'' @ name\<rparr>"]
    show ?thesis unfolding b(1) by (subst node, subst phantom_visit_FunctionDef) (auto simp: node)
  next
    case W
    then obtain test body orelse lineno where node: "node = While test body orelse lineno"
      by (cases node) simp_all
    show ?thesis unfolding b(1)
      by (subst node, subst phantom_visit_While) (simp add: node [symmetric] g [OF b(2)])
  next
    case other
    have "3 * height node \<le> Suc b + 1" using b(2) by simp
    from g [OF this, of d] show ?thesis
      unfolding b(1) phantom_visit_other [OF other] by simp
  qed
qed

lemma phantom_error: "phantom_visit frames node d = Inl e \<Longrightarrow> e = RecursionError"
proof (induction frames arbitrary: node d rule: less_induct)
  case (less frames)
  have g: "e = RecursionError"
    if "generic_visit b phantom_visit node s = Inl e" and "b < frames" for b s
  proof (rule generic_visit_error [OF that(1)])
    fix a c t
    assume "a < b" and "phantom_visit a c t = Inl e"
    then show "e = RecursionError" using less.IH [of a c t] that(2) by simp
  qed
  show ?case
  proof (cases node rule: three_kinds)
    case F
    then obtain name args body dl returns tps lineno
      where node: "node = FunctionDef name args body dl returns tps lineno"
      by (cases node) simp_all
    from less.prems show ?thesis
      unfolding node phantom_visit_FunctionDef
      by (auto simp: py_call_def node [symmetric] split: nat.splits sum.splits dest!: g)
  next
    case W
    then obtain test body orelse lineno where node: "node = While test body orelse lineno"
      by (cases node) simp_all
    from less.prems show ?thesis
      unfolding node phantom_visit_While
      by (auto simp: py_call_def node [symmetric] split: nat.splits dest!: g)
  next
    case other
    from less.prems show ?thesis
      unfolding phantom_visit_other [OF other]
      by (auto simp: py_call_def split: nat.splits dest!: g)
  qed
qed

lemma detect_phantom_Inr:
  assumes "parse src = Inr tree"
  shows "detect_phantom_loops frames parse src = Inr ps \<longleftrightarrow>
     (\<exists>d'. phantom_visit frames tree
        \<lparr>source_lines = split NL src, current_context = ''module'', phantoms = []\<rparr> = Inr d'
        \<and> ps = phantoms d')"
proof -
  let ?d = "\<lparr>source_lines = split NL src, current_context = ''module'', phantoms = []\<rparr>"
  show ?thesis
  proof (cases "phantom_visit frames tree ?d")
    case (Inl e)
    then have "e = RecursionError" by (rule phantom_error)
    with Inl assms show ?thesis by (simp add: detect_phantom_loops_def)
  next
    case (Inr d')
    with assms show ?thesis by (auto simp: detect_phantom_loops_def)
  qed
qed

lemma detect_phantom_keys:
  assumes "parse src = Inr tree" and "detect_phantom_loops frames parse src = Inr ps"
  shows "map phantom_key ps = concat (map loop_finding (nodes_of tree))"
proof -
  from assms obtain d' where v: "phantom_visit frames tree
        \<lparr>source_lines = split NL src, current_context = ''module'', phantoms = []\<rparr> = Inr d'"
    and ps: "ps = phantoms d'"
    by (auto simp: detect_phantom_Inr)
  from phantom_sound [OF v] ps show ?thesis by simp
qed

lemma detect_phantom_returns:
  assumes "parse src = Inr tree" and "3 * height tree + 1 \<le> frames"
  shows "\<exists>ps. detect_phantom_loops frames parse src = Inr ps"
  using phantom_returns [OF assms(2)] assms(1) by (auto simp: detect_phantom_Inr)

lemma detect_phantom_error:
  assumes "detect_phantom_loops frames parse src = Inl e" and "parse src = Inr tree"
  shows "e = RecursionError"
proof -
  let ?d = "\<lparr>source_lines = split NL src, current_context = ''module'', phantoms = []\<rparr>"
  show ?thesis
  proof (cases "phantom_visit frames tree ?d")
    case (Inl e')
    then have "e' = RecursionError" by (rule phantom_error)
    with Inl assms show ?thesis by (simp add: detect_phantom_loops_def)
  next
    case (Inr d')
    with assms show ?thesis by (simp add: detect_phantom_loops_def)
  qed
qed

text \<open>
  C4. Whatever tree the parser returns and whatever the recursion limit is, when the
  phantom-loop detector returns, its findings are, in visiting order, exactly one
  finding for each \<^verbatim>\<open>while\<close> loop whose condition is the literal \<^verbatim>\<open>True\<close> and whose
  first body statement is \<^verbatim>\<open>break\<close> (type \<^verbatim>\<open>WHILE_TRUE_BREAK\<close>, whose value is the
  string \<^verbatim>\<open>while_true_break\<close>, severity HIGH), \<^verbatim>\<open>return\<close> or \<^verbatim>\<open>raise\<close> (severity
  MEDIUM), on the line of that loop; a loop whose first body statement is anything
  else, and so one whose exit comes later in the body, gets no finding. The detector
  returns when \<open>3 * height tree + 1\<close> nested calls are allowed; the only exception it
  lets through after a successful parse is \<^verbatim>\<open>RecursionError\<close>.
\<close>

theorem phantom_findings_per_loop:
  assumes "parse src = Inr tree"
  shows "(\<forall>frames ps. detect_phantom_loops frames parse src = Inr ps \<longrightarrow>
            map phantom_key ps = concat (map loop_finding (nodes_of tree)))
    \<and> (\<forall>frames. 3 * height tree + 1 \<le> frames \<longrightarrow>
            (\<exists>ps. detect_phantom_loops frames parse src = Inr ps))
    \<and> (\<forall>frames e. detect_phantom_loops frames parse src = Inl e \<longrightarrow> e = RecursionError)
    \<and> loop_finding (While (Constant (CBool True) l) (Break lb # rest) orelse lineno)
        = [(lineno, WHILE_TRUE_BREAK, ''HIGH'')]
    \<and> loop_finding (While (Constant (CBool True) l) (Return v lr # rest) orelse lineno)
        = [(lineno, WHILE_TRUE_RETURN, ''MEDIUM'')]
    \<and> loop_finding (While (Constant (CBool True) l) (Raise exc cause lr # rest) orelse lineno)
        = [(lineno, WHILE_TRUE_RAISE, ''MEDIUM'')]
    \<and> loop_finding (While (Constant (CBool True) l) (Expr e le # Break lb # rest) orelse lineno)
        = []
    \<and> PhantomType_value WHILE_TRUE_BREAK = ''while_true_break''"
  using detect_phantom_keys [of parse src tree, OF assms]
    detect_phantom_returns [of parse src tree, OF assms]
    detect_phantom_error [of _ parse src _ tree, OF _ assms]
  by (simp add: loop_finding_def is_literal_True_def)

lemma height_three_loops: "height three_loops = 6"
  by (simp add: three_loops_def height.simps)

theorem phantom_findings_per_loop_witness:
  "parse_as three_loops three_loops_src = Inr three_loops
   \<and> (\<exists>ps. detect_phantom_loops 19 (parse_as three_loops) three_loops_src = Inr ps
        \<and> map phantom_key ps
            = [(1, WHILE_TRUE_BREAK, ''HIGH''), (7, WHILE_TRUE_RETURN, ''MEDIUM'')])
   \<and> detect_phantom_loops 3 (parse_as three_loops) three_loops_src = Inl RecursionError"
proof -
  have h: "parse_as three_loops three_loops_src = Inr three_loops"
    by (simp add: parse_as_def)
  have n: "concat (map loop_finding (nodes_of three_loops))
      = [(1, WHILE_TRUE_BREAK, ''HIGH''), (7, WHILE_TRUE_RETURN, ''MEDIUM'')]"
    by (simp add: three_loops_def nodes_of.simps loop_finding_def is_literal_True_def)
  have f: "3 * height three_loops + 1 \<le> 19" by (simp add: height_three_loops)
  have e: "\<exists>e. detect_phantom_loops 3 (parse_as three_loops) three_loops_src = Inl e"
    by (simp add: detect_phantom_loops_def parse_as_def three_loops_def Let_def
        phantom_visit_other generic_visit_def py_call_pos phantom_visit_While)
  note t = phantom_findings_per_loop [of "parse_as three_loops" three_loops_src, OF h]
  note t1 = t [THEN conjunct1, rule_format]
  note t2 = t [THEN conjunct2, THEN conjunct1, rule_format]
  note t3 = t [THEN conjunct2, THEN conjunct2, THEN conjunct1, rule_format]
  from t2 [OF f] obtain ps where
    ps: "detect_phantom_loops 19 (parse_as three_loops) three_loops_src = Inr ps" ..
  have k: "map phantom_key ps
      = [(1, WHILE_TRUE_BREAK, ''HIGH''), (7, WHILE_TRUE_RETURN, ''MEDIUM'')]"
    using t1 [OF ps] n by simp
  from e obtain e' where
    e': "detect_phantom_loops 3 (parse_as three_loops) three_loops_src = Inl e'" ..
  have 2: "detect_phantom_loops 3 (parse_as three_loops) three_loops_src = Inl RecursionError"
    using e' t3 [OF e'] by simp
  show ?thesis
    by (intro conjI exI [of _ ps]) (fact h ps k 2)+
qed

lemma loop_finding_elem:
  assumes "k \<in> set (loop_finding n)"
  shows "\<exists>l body orelse. n = While (Constant (CBool True) l) body orelse (fst k)
     \<and> fst (snd k) \<in> {WHILE_TRUE_BREAK, WHILE_TRUE_RETURN, WHILE_TRUE_RAISE}"
proof (cases "is_While n")
  case False
  then show ?thesis using assms by (simp add: loop_finding_other)
next
  case True
  then obtain test body orelse lineno where n: "n = While test body orelse lineno"
    by (cases n) simp_all
  have k: "k \<in> set (if is_infinite_condition test then
       (case check_immediate_exit body of
          Some (phantom_type, exit_mechanism) \<Rightarrow>
            [(lineno, phantom_type, calculate_severity phantom_type)]
        | None \<Rightarrow> [])
     else [])"
    using assms unfolding n loop_finding_While .
  have inf: "is_infinite_condition test"
  proof (rule ccontr)
    assume "\<not> is_infinite_condition test"
    with k show False by simp
  qed
  from inf have "\<exists>l. test = Constant (CBool True) l"
    by - (cases test rule: is_infinite_condition.cases, simp_all)
  then obtain l where t: "test = Constant (CBool True) l" ..
  from k inf have "fst k = lineno
      \<and> fst (snd k) \<in> {WHILE_TRUE_BREAK, WHILE_TRUE_RETURN, WHILE_TRUE_RAISE}"
    by - (cases body rule: check_immediate_exit.cases, auto simp: calculate_severity_def)
  then show ?thesis using n t by simp
qed

text \<open>
  C10. Every finding that the phantom-loop detector returns has one of the three type
  tags \<^verbatim>\<open>WHILE_TRUE_BREAK\<close>, \<^verbatim>\<open>WHILE_TRUE_RETURN\<close>, \<^verbatim>\<open>WHILE_TRUE_RAISE\<close>, never
  \<^verbatim>\<open>INFINITE_ITERATOR_EXIT\<close>, and the parsed tree holds, on the finding's line, a
  \<^verbatim>\<open>while\<close> statement whose test is the literal \<^verbatim>\<open>True\<close>. Visiting a loop written
  \<^verbatim>\<open>while 1:\<close> is two calls and then only visits its children: the loop itself is
  not flagged.
\<close>

theorem phantom_findings_only_while_True:
  assumes "detect_phantom_loops frames parse src = Inr ps" and "p \<in> set ps"
  shows "p_phantom_type p \<in> {WHILE_TRUE_BREAK, WHILE_TRUE_RETURN, WHILE_TRUE_RAISE}
    \<and> p_phantom_type p \<noteq> INFINITE_ITERATOR_EXIT
    \<and> (\<exists>tree l body orelse. parse src = Inr tree
          \<and> While (Constant (CBool True) l) body orelse (p_line p) \<in> set (nodes_of tree))
    \<and> phantom_visit frames' (While (Constant (CInt 1) l1) body1 orelse1 lineno1) d
        = py_call frames' (\<lambda>a. py_call a (\<lambda>b.
            generic_visit b phantom_visit (While (Constant (CInt 1) l1) body1 orelse1 lineno1) d))"
proof -
  have one: "phantom_visit frames' (While (Constant (CInt 1) l1) body1 orelse1 lineno1) d
        = py_call frames' (\<lambda>a. py_call a (\<lambda>b.
            generic_visit b phantom_visit (While (Constant (CInt 1) l1) body1 orelse1 lineno1) d))"
    by (simp add: phantom_visit_While)
  show ?thesis
  proof (cases "parse src")
    case (Inl e)
    with assms show ?thesis
      by (cases e) (auto simp: detect_phantom_loops_def)
  next
    case (Inr tree)
    then have "map phantom_key ps = concat (map loop_finding (nodes_of tree))"
      using assms(1) by (rule detect_phantom_keys)
    moreover from assms(2) have "phantom_key p \<in> set (map phantom_key ps)" by simp
    ultimately obtain n where n: "n \<in> set (nodes_of tree)" "phantom_key p \<in> set (loop_finding n)"
      by auto
    from loop_finding_elem [OF n(2)] n(1) Inr one show ?thesis
      by (auto simp: phantom_key_def)
  qed
qed

lemmas phantom_eval =
  phantom_visit_FunctionDef phantom_visit_While phantom_visit_other generic_visit_def
  py_call_pos detect_phantom_loops_def calculate_severity_def get_code_snippet_def
  slice_def NL_def Let_def

theorem phantom_findings_only_while_True_witness:
  "(\<exists>p. detect_phantom_loops 1000 parse_while_true_break ''while True: break'' = Inr [p]
      \<and> p_phantom_type p = WHILE_TRUE_BREAK
      \<and> While (Constant (CBool True) 1) [Break 1] [] 1 \<in> set (nodes_of while_true_break))
   \<and> detect_phantom_loops 1000 parse_while_one_break ''while 1: break'' = Inr []"
proof -
  define p where "p = \<lparr>p_line = 1, p_phantom_type = WHILE_TRUE_BREAK,
     p_code_snippet = ''while True: break'', p_severity = ''HIGH'',
     p_description = ''Loop claims infinity but breaks immediately'',
     p_exit_mechanism = ''breaks'', p_context = ''module''\<rparr>"
  have d: "detect_phantom_loops 1000 parse_while_true_break ''while True: break'' = Inr [p]"
    by (simp add: phantom_eval parse_while_true_break_def while_true_break_def p_def)
  have m: "p \<in> set [p]" by simp
  have o: "detect_phantom_loops 1000 parse_while_one_break ''while 1: break'' = Inr []"
    by (simp add: phantom_eval parse_while_one_break_def while_one_break_def)
  have w: "While (Constant (CBool True) 1) [Break 1] [] 1 \<in> set (nodes_of while_true_break)"
    by (simp add: while_true_break_def nodes_of.simps)
  show ?thesis
    using phantom_findings_only_while_True [OF d m] d o w
    by (auto simp: p_def)
qed

section \<open>Visitors of the common shape\<close>

lemma shape_returns:
  assumes "visitor_shape v"
  shows "3 * height node + 1 \<le> frames \<Longrightarrow> \<exists>d'. v frames node d = Inr d'"
proof (induction node arbitrary: frames d rule: measure_induct_rule [where f = size])
  case (less node)
  have kids: "\<exists>s'. v k c s = Inr s'"
    if "c \<in> set (iter_child_nodes node)" and "3 * height node \<le> k + 2" for c k s
    using less.IH [of c k s] size_child [OF that(1)] height_child [OF that(1)] that(2)
    by simp
  have g: "\<exists>s'. generic_visit b v node s = Inr s'"
    if "3 * height node \<le> b + 1" for b s
  proof (rule generic_visit_returns)
    show "2 \<le> b" using that height_pos [of node] by simp
    fix c t
    assume "c \<in> set (iter_child_nodes node)"
    then show "\<exists>s'. v (b - 1) c t = Inr s'"
      using kids [of c "b - 1" t] that height_pos [of node] by simp
  qed
  define b where "b = frames - 2"
  have b: "frames = Suc (Suc b)" "3 * height node \<le> b + 1"
    using less.prems height_pos [of node] by (simp_all add: b_def)
  from assms consider
    (dispatch) pre post where "\<And>frames d. v frames node d =
           py_call frames (\<lambda>a. py_call a (\<lambda>b.
             case generic_visit b v node (pre d) of
               Inl e \<Rightarrow> Inl e
             | Inr d2 \<Rightarrow> Inr (post d d2)))"
    | (other) "\<And>frames d. v frames node d = py_call frames (\<lambda>a. generic_visit a v node d)"
    unfolding visitor_shape_def by blast
  then show ?case
  proof cases
    case dispatch
    from g [OF b(2), of "pre d"] obtain s' where "generic_visit b v node (pre d) = Inr s'" ..
    then show ?thesis unfolding dispatch b(1) by simp
  next
    case other
    have "3 * height node \<le> Suc b + 1" using b(2) by simp
    from g [OF this, of d] show ?thesis unfolding other b(1) by simp
  qed
qed

lemma shape_error:
  assumes "visitor_shape v"
  shows "v frames node d = Inl e \<Longrightarrow> e = RecursionError"
proof (induction frames arbitrary: node d rule: less_induct)
  case (less frames)
  have g: "e = RecursionError"
    if "generic_visit b v node s = Inl e" and "b < frames" for b s
  proof (rule generic_visit_error [OF that(1)])
    fix a c t
    assume "a < b" and "v a c t = Inl e"
    then show "e = RecursionError" using less.IH [of a c t] that(2) by simp
  qed
  from assms consider
    (dispatch) pre post where "\<And>frames d. v frames node d =
           py_call frames (\<lambda>a. py_call a (\<lambda>b.
             case generic_visit b v node (pre d) of
               Inl e \<Rightarrow> Inl e
             | Inr d2 \<Rightarrow> Inr (post d d2)))"
    | (other) "\<And>frames d. v frames node d = py_call frames (\<lambda>a. generic_visit a v node d)"
    unfolding visitor_shape_def by blast
  then show ?case
  proof cases
    case dispatch
    show ?thesis
    proof (cases frames)
      case 0
      with less.prems show ?thesis unfolding dispatch by simp
    next
      case (Suc a)
      show ?thesis
      proof (cases a)
        case 0
        with Suc less.prems show ?thesis unfolding dispatch by simp
      next
        case (Suc b)
        with \<open>frames = Suc a\<close> less.prems
        have "generic_visit b v node (pre d) = Inl e"
          unfolding dispatch by (simp split: sum.splits)
        moreover have "b < frames" using Suc \<open>frames = Suc a\<close> by simp
        ultimately show ?thesis by (rule g)
      qed
    qed
  next
    case other
    show ?thesis
    proof (cases frames)
      case 0
      with less.prems show ?thesis unfolding other by simp
    next
      case (Suc a)
      with less.prems have "generic_visit a v node d = Inl e" unfolding other by simp
      moreover have "a < frames" using Suc by simp
      ultimately show ?thesis by (rule g)
    qed
  qed
qed

section \<open>The evidence-void detector\<close>

lemma void_visit_FunctionDef:
  "void_visit frames (FunctionDef name args body dl returns tps lineno) d =
     py_call frames (\<lambda>a. py_call a (\<lambda>b.
       case generic_visit b void_visit (FunctionDef name args body dl returns tps lineno)
              (d\<lparr>current_context := ''function:'' @ name\<rparr>) of
         Inl e \<Rightarrow> Inl e
       | Inr d2 \<Rightarrow> Inr (d2\<lparr>current_context := current_context d\<rparr>)))"
  by (subst void_visit.simps) (simp add: Let_def)

lemma void_visit_Try:
  "void_visit frames (Try body handlers orelse finalbody lineno) d =
     py_call frames (\<lambda>a. py_call a (\<lambda>b.
       generic_visit b void_visit (Try body handlers orelse finalbody lineno)
         (fold visit_Try_handler handlers d)))"
  by (subst void_visit.simps) simp

lemma void_visit_Call:
  "void_visit frames (Call func args keywords lineno) d =
     py_call frames (\<lambda>a. py_call a (\<lambda>b.
       generic_visit b void_visit (Call func args keywords lineno)
         (visit_Call_check (Call func args keywords lineno) lineno d)))"
  by (subst void_visit.simps) simp

lemma void_visit_other:
  "\<not> is_FunctionDef node \<Longrightarrow> \<not> is_Try node \<Longrightarrow> \<not> is_Call node \<Longrightarrow>
   void_visit frames node d = py_call frames (\<lambda>a. generic_visit a void_visit node d)"
  by (subst void_visit.simps) (cases node; simp)

lemma visit_Try_handler_key:
  "source_lines (visit_Try_handler h d) = source_lines d
   \<and> current_context (visit_Try_handler h d) = current_context d
   \<and> map void_key (voids (visit_Try_handler h d)) = map void_key (voids d) @ handler_voids h"
  by (cases h) (simp_all add: visit_Try_handler_def handler_voids_def append_void_def
      void_key_def Let_def)

lemma fold_visit_Try_handler_key:
  "source_lines (fold visit_Try_handler hs d) = source_lines d
   \<and> current_context (fold visit_Try_handler hs d) = current_context d
   \<and> map void_key (voids (fold visit_Try_handler hs d))
       = map void_key (voids d) @ concat (map handler_voids hs)"
proof (induction hs arbitrary: d)
  case Nil
  show ?case by simp
next
  case (Cons h hs)
  show ?case
    using Cons.IH [of "visit_Try_handler h d"] visit_Try_handler_key [of h d] by simp
qed

lemma visit_Call_check_key:
  "source_lines (visit_Call_check (Call func args keywords lineno) lineno d) = source_lines d
   \<and> current_context (visit_Call_check (Call func args keywords lineno) lineno d)
       = current_context d
   \<and> map void_key (voids (visit_Call_check (Call func args keywords lineno) lineno d))
       = map void_key (voids d) @ node_voids (Call func args keywords lineno)"
  by (simp add: visit_Call_check_def node_voids_def append_void_def void_key_def
      is_error_checked_def split: option.splits)

lemma node_voids_other: "\<not> is_Try node \<Longrightarrow> \<not> is_Call node \<Longrightarrow> node_voids node = []"
  unfolding node_voids_def by (cases node) simp_all

lemma four_kinds:
  obtains (F) "is_FunctionDef node" | (T) "is_Try node" | (C) "is_Call node"
    | (other) "\<not> is_FunctionDef node" "\<not> is_Try node" "\<not> is_Call node"
  by blast

text \<open>
  For each of the node classes with a \<^verbatim>\<open>visit_\<close> method: the visit is two calls, then
  the method's own tests from a state \<open>d0\<close>, then \<^verbatim>\<open>generic_visit\<close>, and for a
  function the old context again.
\<close>

lemma void_visit_shape:
  obtains (dispatch) pre post where
      "\<And>frames d. void_visit frames node d =
         py_call frames (\<lambda>a. py_call a (\<lambda>b.
           case generic_visit b void_visit node (pre d) of
             Inl e \<Rightarrow> Inl e
           | Inr d2 \<Rightarrow> Inr (post d d2)))"
      "\<And>d. (source_lines (pre d)) = source_lines d"
      "\<And>d. map void_key (voids (pre d)) = map void_key (voids d) @ node_voids node"
      "\<And>d d2. source_lines (post d d2) = source_lines d2
         \<and> voids (post d d2) = voids d2
         \<and> (current_context d2 = current_context (pre d)
              \<longrightarrow> current_context (post d d2) = current_context d)"
    | (other) "\<And>frames d. void_visit frames node d =
         py_call frames (\<lambda>a. generic_visit a void_visit node d)"
      "node_voids node = []"
proof (cases node rule: four_kinds)
  case F
  then obtain name args body dl returns tps lineno
    where node: "node = FunctionDef name args body dl returns tps lineno"
    by (cases node) simp_all
  show ?thesis
  proof (rule dispatch [where pre = "\<lambda>d. d\<lparr>current_context := ''function:'' @ name\<rparr>"
        and post = "\<lambda>d d2. d2\<lparr>current_context := current_context d\<rparr>"])
    show "void_visit frames node d =
         py_call frames (\<lambda>a. py_call a (\<lambda>b.
           case generic_visit b void_visit node (d\<lparr>current_context := ''function:'' @ name\<rparr>) of
             Inl e \<Rightarrow> Inl e
           | Inr d2 \<Rightarrow> Inr (d2\<lparr>current_context := current_context d\<rparr>)))" for frames d
      unfolding node by (rule void_visit_FunctionDef)
  qed (simp_all add: node node_voids_other)
next
  case T
  then obtain body handlers orelse finalbody lineno
    where node: "node = Try body handlers orelse finalbody lineno"
    by (cases node) simp_all
  show ?thesis
  proof (rule dispatch [where pre = "\<lambda>d. fold visit_Try_handler handlers d"
        and post = "\<lambda>d d2. d2"])
    show "void_visit frames node d =
         py_call frames (\<lambda>a. py_call a (\<lambda>b.
           case generic_visit b void_visit node (fold visit_Try_handler handlers d) of
             Inl e \<Rightarrow> Inl e
           | Inr d2 \<Rightarrow> Inr d2))" for frames d
      unfolding node void_visit_Try
      by (intro arg_cong2 [where f = py_call] refl ext) (simp split: sum.splits)
  qed (simp_all add: node node_voids_def fold_visit_Try_handler_key)
next
  case C
  then obtain func args kws lineno where node: "node = Call func args kws lineno"
    by (cases node) simp_all
  show ?thesis
  proof (rule dispatch [where pre = "\<lambda>d. visit_Call_check node lineno d"
        and post = "\<lambda>d d2. d2"])
    show "void_visit frames node d =
         py_call frames (\<lambda>a. py_call a (\<lambda>b.
           case generic_visit b void_visit node (visit_Call_check node lineno d) of
             Inl e \<Rightarrow> Inl e
           | Inr d2 \<Rightarrow> Inr d2))" for frames d
      unfolding node void_visit_Call
      by (intro arg_cong2 [where f = py_call] refl ext) (simp split: sum.splits)
  qed (simp_all add: node visit_Call_check_key)
next
  case other
  show ?thesis
  proof (rule that(2))
    show "void_visit frames node d = py_call frames (\<lambda>a. generic_visit a void_visit node d)"
      for frames d
      using other by (rule void_visit_other)
    show "node_voids node = []" using other(2,3) by (rule node_voids_other)
  qed
qed

lemma void_shape: "visitor_shape void_visit"
  unfolding visitor_shape_def
proof
  fix node
  show "(\<exists>pre post. \<forall>frames d. void_visit frames node d =
           py_call frames (\<lambda>a. py_call a (\<lambda>b.
             case generic_visit b void_visit node (pre d) of
               Inl e \<Rightarrow> Inl e
             | Inr d2 \<Rightarrow> Inr (post d d2))))
      \<or> (\<forall>frames d. void_visit frames node d =
            py_call frames (\<lambda>a. generic_visit a void_visit node d))"
    by (cases node rule: void_visit_shape) blast+
qed

lemma void_sound:
  "void_visit frames node d = Inr d' \<Longrightarrow>
     (source_lines d', current_context d') = (source_lines d, current_context d)
   \<and> map void_key (voids d')
       = map void_key (voids d) @ concat (map node_voids (nodes_of node))"
proof (induction frames arbitrary: node d d' rule: less_induct)
  case (less frames)
  let ?I = "\<lambda>s::EvidenceVoidDetector. (source_lines s, current_context s)"
  let ?K = "\<lambda>s. map void_key (voids s)"
  let ?F = "\<lambda>c. concat (map node_voids (nodes_of c))"
  have g: "?I s' = ?I s \<and> ?K s' = ?K s @ concat (map ?F (iter_child_nodes node))"
    if "generic_visit b void_visit node s = Inr s'" and "b < frames" for b s s'
  proof (rule generic_visit_sound [OF that(1), of ?I ?K ?F])
    fix a c t t'
    assume "a < b" and "void_visit a c t = Inr t'"
    then show "?I t' = ?I t \<and> ?K t' = ?K t @ ?F c"
      using less.IH [of a c t t'] that(2) by simp
  qed
  have n: "concat (map node_voids (nodes_of node))
      = node_voids node @ concat (map ?F (iter_child_nodes node))"
    by (subst nodes_of.simps) (simp add: concat_map_concat comp_def)
  show ?case
  proof (cases node rule: void_visit_shape)
    case (dispatch pre post)
    from less.prems have "\<exists>b. frames = Suc (Suc b) \<and>
        (case generic_visit b void_visit node (pre d) of
           Inl e \<Rightarrow> Inl e
         | Inr d2 \<Rightarrow> Inr (post d d2)) = Inr d'"
      unfolding dispatch(1) py_call2_Inr .
    then obtain b where b: "frames = Suc (Suc b)"
      and c: "(case generic_visit b void_visit node (pre d) of
           Inl e \<Rightarrow> Inl e
         | Inr d2 \<Rightarrow> Inr (post d d2)) = Inr d'"
      by blast
    then obtain d2 where r: "generic_visit b void_visit node (pre d) = Inr d2"
      and d': "d' = post d d2"
      by (cases "generic_visit b void_visit node (pre d)") auto
    from g [OF r] b have "?I d2 = ?I (pre d)"
      and k: "?K d2 = ?K (pre d) @ concat (map ?F (iter_child_nodes node))"
      by simp_all
    then show ?thesis
      unfolding n d' using dispatch(2) [of d] dispatch(3) [of d] dispatch(4) [of d d2] k
      by simp
  next
    case other
    from less.prems have "\<exists>a. frames = Suc a \<and>
        generic_visit a void_visit node d = Inr d'"
      unfolding other(1) py_call_Inr .
    then obtain a where a: "frames = Suc a"
      and r: "generic_visit a void_visit node d = Inr d'"
      by blast
    from g [OF r] a show ?thesis unfolding n other(2) by simp
  qed
qed

lemma void_returns:
  "3 * height node + 1 \<le> frames \<Longrightarrow> \<exists>d'. void_visit frames node d = Inr d'"
  using void_shape by (rule shape_returns)

lemma void_error: "void_visit frames node d = Inl e \<Longrightarrow> e = RecursionError"
  using void_shape by (rule shape_error)

lemma detect_void_Inr:
  assumes "parse src = Inr tree"
  shows "detect_evidence_voids frames parse src = Inr vs \<longleftrightarrow>
     (\<exists>d'. void_visit frames tree
        \<lparr>source_lines = split NL src, current_context = ''module'', voids = []\<rparr> = Inr d'
        \<and> vs = voids d')"
proof -
  let ?d = "\<lparr>source_lines = split NL src, current_context = ''module'', voids = []\<rparr>"
  show ?thesis
  proof (cases "void_visit frames tree ?d")
    case (Inl e)
    then have "e = RecursionError" by (rule void_error)
    with Inl assms show ?thesis by (simp add: detect_evidence_voids_def)
  next
    case (Inr d')
    with assms show ?thesis by (auto simp: detect_evidence_voids_def)
  qed
qed

lemma detect_void_keys:
  assumes "parse src = Inr tree" and "detect_evidence_voids frames parse src = Inr vs"
  shows "map void_key vs = concat (map node_voids (nodes_of tree))"
proof -
  from assms obtain d' where v: "void_visit frames tree
        \<lparr>source_lines = split NL src, current_context = ''module'', voids = []\<rparr> = Inr d'"
    and vs: "vs = voids d'"
    by (auto simp: detect_void_Inr)
  from void_sound [OF v] vs show ?thesis by simp
qed

lemma detect_void_returns:
  assumes "parse src = Inr tree" and "3 * height tree + 1 \<le> frames"
  shows "\<exists>vs. detect_evidence_voids frames parse src = Inr vs"
  using void_returns [OF assms(2)] assms(1) by (auto simp: detect_void_Inr)

lemma detect_void_error:
  assumes "detect_evidence_voids frames parse src = Inl e" and "parse src = Inr tree"
  shows "e = RecursionError"
proof -
  let ?d = "\<lparr>source_lines = split NL src, current_context = ''module'', voids = []\<rparr>"
  show ?thesis
  proof (cases "void_visit frames tree ?d")
    case (Inl e')
    then have "e' = RecursionError" by (rule void_error)
    with Inl assms show ?thesis by (simp add: detect_evidence_voids_def)
  next
    case (Inr d')
    with assms show ?thesis by (simp add: detect_evidence_voids_def)
  qed
qed

lemmas void_eval =
  void_visit_FunctionDef void_visit_Try void_visit_Call void_visit_other generic_visit_def
  py_call_pos
  detect_evidence_voids_def visit_Try_handler_def visit_Call_check_def append_void_def
  is_swallowed_def has_logging_def walk_def is_error_checked_def fallible_def
  get_code_snippet_def slice_def parse_as_def Let_def

lemma swallowed_in_handler_voids:
  assumes "hbody = [] \<or> (\<exists>stmt. hbody = [stmt] \<and> (is_Pass stmt \<or> is_Continue stmt \<or> is_Break stmt))"
  shows "(hline, SWALLOWED_EXCEPTION, ''HIGH'') \<in> set (handler_voids (ExceptHandler type name hbody hline))"
  using assms by (auto simp: handler_voids_def is_swallowed_def)

lemma bare_in_handler_voids:
  "(hline, BARE_EXCEPT, ''HIGH'') \<in> set (handler_voids (ExceptHandler None name hbody hline))"
  by (simp add: handler_voids_def)

lemma handler_in_tree:
  assumes "Try body handlers orelse finalbody lineno \<in> set (nodes_of tree)"
    and "h \<in> set handlers"
    and "k \<in> set (handler_voids h)"
  shows "k \<in> set (concat (map node_voids (nodes_of tree)))"
proof -
  from assms(2,3) have "k \<in> set (node_voids (Try body handlers orelse finalbody lineno))"
    by (auto simp: node_voids_def)
  with assms(1) show ?thesis by auto
qed

text \<open>
  C5, as amended. For every exception handler of a \<^verbatim>\<open>try\<close> statement with plain
  \<^verbatim>\<open>except\<close> clauses (an \<^verbatim>\<open>ast.Try\<close> node) of the parsed tree, if the body of the
  handler is empty or is exactly one statement that is \<^verbatim>\<open>pass\<close>, \<^verbatim>\<open>continue\<close> or
  \<^verbatim>\<open>break\<close>, then the findings that the evidence-void detector returns hold a
  swallowed-exception finding of severity HIGH on the handler's line, whether or not
  the handler declares an exception type; when it declares none, they hold the
  bare-except finding on that line too. The detector returns when
  \<open>3 * height tree + 1\<close> nested calls are allowed, and the only exception it lets
  through after a successful parse is \<^verbatim>\<open>RecursionError\<close>.
\<close>

theorem swallowed_single_noop:
  assumes "parse src = Inr tree"
    and "Try body handlers orelse finalbody lineno \<in> set (nodes_of tree)"
    and "ExceptHandler type name hbody hline \<in> set handlers"
    and "hbody = [] \<or>
         (\<exists>stmt. hbody = [stmt] \<and> (is_Pass stmt \<or> is_Continue stmt \<or> is_Break stmt))"
  shows "(\<forall>frames vs. detect_evidence_voids frames parse src = Inr vs \<longrightarrow>
            (hline, SWALLOWED_EXCEPTION, ''HIGH'') \<in> set (map void_key vs)
          \<and> (type = None \<longrightarrow> (hline, BARE_EXCEPT, ''HIGH'') \<in> set (map void_key vs)))
    \<and> (\<forall>frames. 3 * height tree + 1 \<le> frames \<longrightarrow>
            (\<exists>vs. detect_evidence_voids frames parse src = Inr vs))
    \<and> (\<forall>frames e. detect_evidence_voids frames parse src = Inl e \<longrightarrow> e = RecursionError)"
proof (intro conjI allI impI)
  fix frames vs
  assume d: "detect_evidence_voids frames parse src = Inr vs"
  have k: "map void_key vs = concat (map node_voids (nodes_of tree))"
    using assms(1) d by (rule detect_void_keys)
  have "(hline, SWALLOWED_EXCEPTION, ''HIGH'')
      \<in> set (handler_voids (ExceptHandler type name hbody hline))"
    using assms(4) by (rule swallowed_in_handler_voids)
  with assms(2,3) show "(hline, SWALLOWED_EXCEPTION, ''HIGH'') \<in> set (map void_key vs)"
    unfolding k by (rule handler_in_tree)
  assume "type = None"
  then have "(hline, BARE_EXCEPT, ''HIGH'')
      \<in> set (handler_voids (ExceptHandler type name hbody hline))"
    by (simp add: bare_in_handler_voids)
  with assms(2,3) show "(hline, BARE_EXCEPT, ''HIGH'') \<in> set (map void_key vs)"
    unfolding k by (rule handler_in_tree)
next
  fix frames :: nat
  assume "3 * height tree + 1 \<le> frames"
  with assms(1) show "\<exists>vs. detect_evidence_voids frames parse src = Inr vs"
    by (rule detect_void_returns)
next
  fix frames e
  assume "detect_evidence_voids frames parse src = Inl e"
  then show "e = RecursionError" using assms(1) by (rule detect_void_error)
qed

lemma height_try_except_pass: "height try_except_pass = 4"
  by (simp add: try_except_pass_def height.simps)

theorem swallowed_single_noop_witness:
  "parse_as try_except_pass try_except_pass_src = Inr try_except_pass
   \<and> Try [Pass 2] [ExceptHandler None None [Pass 4] 3] [] [] 1 \<in> set (nodes_of try_except_pass)
   \<and> is_Pass (Pass 4)
   \<and> (\<exists>vs. detect_evidence_voids 13 (parse_as try_except_pass) try_except_pass_src = Inr vs
        \<and> (3, SWALLOWED_EXCEPTION, ''HIGH'') \<in> set (map void_key vs)
        \<and> (3, BARE_EXCEPT, ''HIGH'') \<in> set (map void_key vs))
   \<and> detect_evidence_voids 3 (parse_as try_except_pass) try_except_pass_src
       = Inl RecursionError"
proof -
  have a: "parse_as try_except_pass try_except_pass_src = Inr try_except_pass"
    by (simp add: parse_as_def)
  have b: "Try [Pass 2] [ExceptHandler None None [Pass 4] 3] [] [] 1
      \<in> set (nodes_of try_except_pass)"
    by (simp add: try_except_pass_def nodes_of.simps)
  have c: "ExceptHandler None None [Pass 4] 3 \<in> set [ExceptHandler None None [Pass 4] 3]"
    by simp
  have e: "[Pass 4] = [] \<or>
      (\<exists>stmt. [Pass 4] = [stmt] \<and> (is_Pass stmt \<or> is_Continue stmt \<or> is_Break stmt))"
    by simp
  have f: "3 * height try_except_pass + 1 \<le> 13" by (simp add: height_try_except_pass)
  have x: "\<exists>e. detect_evidence_voids 3 (parse_as try_except_pass) try_except_pass_src = Inl e"
    by (simp add: void_eval try_except_pass_def)
  note t = swallowed_single_noop
      [of "parse_as try_except_pass" try_except_pass_src try_except_pass
        "[Pass 2]" "[ExceptHandler None None [Pass 4] 3]" "[]" "[]" 1 None None "[Pass 4]" 3,
       OF a b c e]
  note t1 = t [THEN conjunct1, rule_format]
  note t2 = t [THEN conjunct2, THEN conjunct1, rule_format]
  note t3 = t [THEN conjunct2, THEN conjunct2, rule_format]
  from t2 [OF f] obtain vs where
    vs: "detect_evidence_voids 13 (parse_as try_except_pass) try_except_pass_src = Inr vs" ..
  have k1: "(3, SWALLOWED_EXCEPTION, ''HIGH'') \<in> set (map void_key vs)"
    using t1 [OF vs] by simp
  have k2: "(3, BARE_EXCEPT, ''HIGH'') \<in> set (map void_key vs)"
    using t1 [OF vs] by simp
  from x obtain e' where
    e': "detect_evidence_voids 3 (parse_as try_except_pass) try_except_pass_src = Inl e'" ..
  have 2: "detect_evidence_voids 3 (parse_as try_except_pass) try_except_pass_src
      = Inl RecursionError"
    using e' t3 [OF e'] by simp
  have p: "is_Pass (Pass 4)" by simp
  show ?thesis
    by (intro conjI exI [of _ vs]) (fact a b p vs k1 k2 2)+
qed

text \<open>
  Against C5 as it is stated, for any number of no-op statements and for every
  handler: a handler whose body is two \<^verbatim>\<open>pass\<close> statements gets the bare-except and
  the no-logging finding, and no swallowed-exception finding; and the handler
  \<^verbatim>\<open>except* ValueError: pass\<close> of a \<^verbatim>\<open>TryStar\<close> node gets no finding at all.
\<close>

theorem two_pass_handler_not_swallowed:
  "is_Pass (Pass 4) \<and> is_Pass (Pass 5)
   \<and> map_sum id (map void_key)
        (detect_evidence_voids 1000 (parse_as try_except_two_pass) try_except_two_pass_src)
     = Inr [(3, BARE_EXCEPT, ''HIGH''), (3, NO_LOGGING_IN_EXCEPT, ''MEDIUM'')]
   \<and> detect_evidence_voids 1000 (parse_as try_star) try_star_src = Inr []"
  by (simp add: void_eval try_except_two_pass_def try_star_def void_key_def)

lemma node_voids_except_pass:
  "node_voids (Try body (hs1 @ [ExceptHandler None name [Pass l] hline] @ hs2)
         orelse finalbody lineno)
        = concat (map handler_voids hs1)
          @ [(hline, BARE_EXCEPT, ''HIGH''), (hline, SWALLOWED_EXCEPTION, ''HIGH''),
             (hline, NO_LOGGING_IN_EXCEPT, ''MEDIUM'')]
          @ concat (map handler_voids hs2)"
  by (simp add: node_voids_def handler_voids_def is_swallowed_def has_logging_def walk_def)

lemma except_pass_in_findings:
  assumes "map void_key vs = concat (map node_voids (nodes_of tree))"
    and "Try body (hs1 @ [ExceptHandler None name [Pass l] hline] @ hs2)
           orelse finalbody lineno \<in> set (nodes_of tree)"
  shows "\<exists>before after. map void_key vs
      = before
        @ [(hline, BARE_EXCEPT, ''HIGH''), (hline, SWALLOWED_EXCEPTION, ''HIGH''),
           (hline, NO_LOGGING_IN_EXCEPT, ''MEDIUM'')]
        @ after"
proof -
  from assms(2) obtain xs ys where
    n: "nodes_of tree = xs @ Try body (hs1 @ [ExceptHandler None name [Pass l] hline] @ hs2)
           orelse finalbody lineno # ys"
    by (auto dest: split_list)
  have "map void_key vs
      = (concat (map node_voids xs) @ concat (map handler_voids hs1))
        @ [(hline, BARE_EXCEPT, ''HIGH''), (hline, SWALLOWED_EXCEPTION, ''HIGH''),
           (hline, NO_LOGGING_IN_EXCEPT, ''MEDIUM'')]
        @ (concat (map handler_voids hs2) @ concat (map node_voids ys))"
    unfolding assms(1) n
    using node_voids_except_pass [of body hs1 name l hline hs2 orelse finalbody lineno]
    by simp
  then show ?thesis by blast
qed

text \<open>
  C6. Whenever the evidence-void detector returns, its findings are, in visiting
  order, those of the \<^verbatim>\<open>try\<close> statements and the calls of the parsed tree. For
  every \<^verbatim>\<open>try\<close> statement of the tree that has a handler \<^verbatim>\<open>except: pass\<close>, the
  returned findings hold, one after the other, the three findings of that handler,
  all on the handler's line: bare-except (HIGH), swallowed-exception (HIGH) and
  no-logging-in-except (MEDIUM). They are exactly what the handler contributes: a
  \<^verbatim>\<open>try\<close> statement contributes the findings of its handlers in their order, and
  visiting the handler node and its \<^verbatim>\<open>pass\<close> afterwards contributes nothing. The
  detector returns when \<open>3 * height tree + 1\<close> nested calls are allowed.
\<close>

theorem except_pass_three_findings:
  assumes "parse src = Inr tree"
  shows "(\<forall>frames vs. detect_evidence_voids frames parse src = Inr vs \<longrightarrow>
            map void_key vs = concat (map node_voids (nodes_of tree)))
    \<and> (\<forall>frames. 3 * height tree + 1 \<le> frames \<longrightarrow>
            (\<exists>vs. detect_evidence_voids frames parse src = Inr vs))
    \<and> (\<forall>frames vs.
          detect_evidence_voids frames parse src = Inr vs
        \<and> Try body (hs1 @ [ExceptHandler None name [Pass l] hline] @ hs2)
             orelse finalbody lineno \<in> set (nodes_of tree)
        \<longrightarrow> (\<exists>before after. map void_key vs
               = before
                 @ [(hline, BARE_EXCEPT, ''HIGH''), (hline, SWALLOWED_EXCEPTION, ''HIGH''),
                    (hline, NO_LOGGING_IN_EXCEPT, ''MEDIUM'')]
                 @ after))
    \<and> node_voids (Try body (hs1 @ [ExceptHandler None name [Pass l] hline] @ hs2)
         orelse finalbody lineno)
        = concat (map handler_voids hs1)
          @ [(hline, BARE_EXCEPT, ''HIGH''), (hline, SWALLOWED_EXCEPTION, ''HIGH''),
             (hline, NO_LOGGING_IN_EXCEPT, ''MEDIUM'')]
          @ concat (map handler_voids hs2)
    \<and> node_voids (ExceptHandler None name [Pass l] hline) = []
    \<and> node_voids (Pass l) = []"
proof (intro conjI allI impI)
  fix frames vs
  assume "detect_evidence_voids frames parse src = Inr vs"
  with assms show "map void_key vs = concat (map node_voids (nodes_of tree))"
    by (rule detect_void_keys)
next
  fix frames :: nat
  assume "3 * height tree + 1 \<le> frames"
  with assms show "\<exists>vs. detect_evidence_voids frames parse src = Inr vs"
    by (rule detect_void_returns)
next
  fix frames vs
  assume a: "detect_evidence_voids frames parse src = Inr vs
        \<and> Try body (hs1 @ [ExceptHandler None name [Pass l] hline] @ hs2)
             orelse finalbody lineno \<in> set (nodes_of tree)"
  have "map void_key vs = concat (map node_voids (nodes_of tree))"
    using assms a [THEN conjunct1] by (rule detect_void_keys)
  then show "\<exists>before after. map void_key vs
               = before
                 @ [(hline, BARE_EXCEPT, ''HIGH''), (hline, SWALLOWED_EXCEPTION, ''HIGH''),
                    (hline, NO_LOGGING_IN_EXCEPT, ''MEDIUM'')]
                 @ after"
    using a [THEN conjunct2] by (rule except_pass_in_findings)
next
  show "node_voids (Try body (hs1 @ [ExceptHandler None name [Pass l] hline] @ hs2)
         orelse finalbody lineno)
        = concat (map handler_voids hs1)
          @ [(hline, BARE_EXCEPT, ''HIGH''), (hline, SWALLOWED_EXCEPTION, ''HIGH''),
             (hline, NO_LOGGING_IN_EXCEPT, ''MEDIUM'')]
          @ concat (map handler_voids hs2)"
    by (rule node_voids_except_pass)
next
  show "node_voids (ExceptHandler None name [Pass l] hline) = []"
    by (simp add: node_voids_def)
next
  show "node_voids (Pass l) = []" by (simp add: node_voids_def)
qed

lemma height_try_two_handlers: "height try_two_handlers = 7"
  by (simp add: try_two_handlers_def height.simps)

theorem except_pass_three_findings_witness:
  "parse_as try_two_handlers try_two_handlers_src = Inr try_two_handlers
   \<and> (\<exists>vs. detect_evidence_voids 22 (parse_as try_two_handlers) try_two_handlers_src = Inr vs
        \<and> map void_key vs
            = [(5, BARE_EXCEPT, ''HIGH''), (5, SWALLOWED_EXCEPTION, ''HIGH''),
               (5, NO_LOGGING_IN_EXCEPT, ''MEDIUM'')])"
proof -
  have h: "parse_as try_two_handlers try_two_handlers_src = Inr try_two_handlers"
    by (simp add: parse_as_def)
  have n: "concat (map node_voids (nodes_of try_two_handlers))
      = [(5, BARE_EXCEPT, ''HIGH''), (5, SWALLOWED_EXCEPTION, ''HIGH''),
         (5, NO_LOGGING_IN_EXCEPT, ''MEDIUM'')]"
    by (simp add: try_two_handlers_def nodes_of.simps node_voids_def handler_voids_def
        is_swallowed_def has_logging_def walk_def fallible_def)
  have f: "3 * height try_two_handlers + 1 \<le> 22" by (simp add: height_try_two_handlers)
  note t = except_pass_three_findings
      [of "parse_as try_two_handlers" try_two_handlers_src, OF h]
  note t1 = t [THEN conjunct1, rule_format]
  note t2 = t [THEN conjunct2, THEN conjunct1, rule_format]
  from t2 [OF f] obtain vs where
    vs: "detect_evidence_voids 22 (parse_as try_two_handlers) try_two_handlers_src = Inr vs" ..
  have k: "map void_key vs
      = [(5, BARE_EXCEPT, ''HIGH''), (5, SWALLOWED_EXCEPTION, ''HIGH''),
         (5, NO_LOGGING_IN_EXCEPT, ''MEDIUM'')]"
    using t1 [OF vs] n by simp
  show ?thesis
    by (intro conjI exI [of _ vs]) (fact h vs k)+
qed

text \<open>
  C7. A call of \<^verbatim>\<open>open\<close> inside a \<^verbatim>\<open>try\<close> block, with a handler that names the
  exception and prints: the detector still returns a silent-failure finding for the
  call, because \<^verbatim>\<open>_is_error_checked\<close> answers \<^verbatim>\<open>False\<close> for every call.
\<close>

theorem fallible_call_inside_try_flagged:
  "map_sum id (map void_key) (detect_evidence_voids 1000 (parse_as try_open) try_open_src)
     = Inr [(2, SILENT_FAILURE, ''MEDIUM'')]"
  by (simp add: void_eval try_open_def void_key_def)

section \<open>The zombie-orbit detector\<close>

lemma sum_case_id: "(case x of Inl e \<Rightarrow> Inl e | Inr y \<Rightarrow> Inr y) = x"
  by (cases x) simp_all

lemma zombie_visit_shape:
  obtains (dispatch) pre post where
      "\<And>frames d. zombie_visit lw frames node d =
         py_call frames (\<lambda>a. py_call a (\<lambda>b.
           case generic_visit b (zombie_visit lw) node (pre d) of
             Inl e \<Rightarrow> Inl e
           | Inr d2 \<Rightarrow> Inr (post d d2)))"
    | (other) "\<And>frames d. zombie_visit lw frames node d =
         py_call frames (\<lambda>a. generic_visit a (zombie_visit lw) node d)"
proof (cases node)
  case (FunctionDef name args body dl returns tps lineno)
  show ?thesis
  proof (rule dispatch [where
        pre = "\<lambda>d. if \<not> has_meaningful_return node \<and> \<not> has_side_effects node then
                 append_zombie
                   \<lparr>z_line = lineno,
                    z_zombie_type = NO_RETURN_FUNCTION,
                    z_code_snippet = get_code_snippet (source_lines d) lineno,
                    z_severity = ''MEDIUM'',
                    z_description =
                      ''Function '' @ [QUOTE] @ name @ [QUOTE] @
                      '' runs but produces no output or side effects'',
                    z_context = ''function:'' @ name\<rparr>
                   (d\<lparr>current_context := ''function:'' @ name\<rparr>)
               else d\<lparr>current_context := ''function:'' @ name\<rparr>"
        and post = "\<lambda>d d2. d2\<lparr>current_context := current_context d\<rparr>"])
    show "zombie_visit lw frames node d =
         py_call frames (\<lambda>a. py_call a (\<lambda>b.
           case generic_visit b (zombie_visit lw) node
             (if \<not> has_meaningful_return node \<and> \<not> has_side_effects node then
                 append_zombie
                   \<lparr>z_line = lineno,
                    z_zombie_type = NO_RETURN_FUNCTION,
                    z_code_snippet = get_code_snippet (source_lines d) lineno,
                    z_severity = ''MEDIUM'',
                    z_description =
                      ''Function '' @ [QUOTE] @ name @ [QUOTE] @
                      '' runs but produces no output or side effects'',
                    z_context = ''function:'' @ name\<rparr>
                   (d\<lparr>current_context := ''function:'' @ name\<rparr>)
               else d\<lparr>current_context := ''function:'' @ name\<rparr>) of
             Inl e \<Rightarrow> Inl e
           | Inr d2 \<Rightarrow> Inr (d2\<lparr>current_context := current_context d\<rparr>)))" for frames d
      unfolding FunctionDef by (subst zombie_visit.simps) (simp add: Let_def)
  qed
next
  case (Expr v lineno)
  show ?thesis
  proof (rule dispatch [where pre = "\<lambda>d. visit_Expr_checks lw v lineno d"
        and post = "\<lambda>d d2. d2"])
    show "zombie_visit lw frames node d =
         py_call frames (\<lambda>a. py_call a (\<lambda>b.
           case generic_visit b (zombie_visit lw) node (visit_Expr_checks lw v lineno d) of
             Inl e \<Rightarrow> Inl e
           | Inr d2 \<Rightarrow> Inr d2))" for frames d
      unfolding Expr by (subst zombie_visit.simps) (simp add: sum_case_id)
  qed
next
  case (For target iter body orelse lineno)
  show ?thesis
  proof (rule dispatch [where pre = "\<lambda>d. visit_loop_check body lineno d"
        and post = "\<lambda>d d2. d2"])
    show "zombie_visit lw frames node d =
         py_call frames (\<lambda>a. py_call a (\<lambda>b.
           case generic_visit b (zombie_visit lw) node (visit_loop_check body lineno d) of
             Inl e \<Rightarrow> Inl e
           | Inr d2 \<Rightarrow> Inr d2))" for frames d
      unfolding For by (subst zombie_visit.simps) (simp add: sum_case_id)
  qed
next
  case (While test body orelse lineno)
  show ?thesis
  proof (rule dispatch [where pre = "\<lambda>d. visit_loop_check body lineno d"
        and post = "\<lambda>d d2. d2"])
    show "zombie_visit lw frames node d =
         py_call frames (\<lambda>a. py_call a (\<lambda>b.
           case generic_visit b (zombie_visit lw) node (visit_loop_check body lineno d) of
             Inl e \<Rightarrow> Inl e
           | Inr d2 \<Rightarrow> Inr d2))" for frames d
      unfolding While by (subst zombie_visit.simps) (simp add: sum_case_id)
  qed
qed (rule other, subst zombie_visit.simps, simp)+

lemma zombie_shape: "visitor_shape (zombie_visit lw)"
  unfolding visitor_shape_def
proof
  fix node
  show "(\<exists>pre post. \<forall>frames d. zombie_visit lw frames node d =
           py_call frames (\<lambda>a. py_call a (\<lambda>b.
             case generic_visit b (zombie_visit lw) node (pre d) of
               Inl e \<Rightarrow> Inl e
             | Inr d2 \<Rightarrow> Inr (post d d2))))
      \<or> (\<forall>frames d. zombie_visit lw frames node d =
            py_call frames (\<lambda>a. generic_visit a (zombie_visit lw) node d))"
    by (cases node rule: zombie_visit_shape [where lw = lw]) blast+
qed

lemma zombie_returns:
  "3 * height node + 1 \<le> frames \<Longrightarrow> \<exists>d'. zombie_visit lw frames node d = Inr d'"
  using zombie_shape by (rule shape_returns)

lemma zombie_error: "zombie_visit lw frames node d = Inl e \<Longrightarrow> e = RecursionError"
  using zombie_shape by (rule shape_error)

lemma detect_zombie_returns:
  assumes "parse src = Inr tree" and "3 * height tree + 1 \<le> frames"
  shows "\<exists>zs. detect_zombie_orbits lw frames parse src = Inr zs"
proof -
  from zombie_returns [OF assms(2)] obtain d' where
    "zombie_visit lw frames tree
       \<lparr>source_lines = split NL src, current_context = ''module'',
        zombies = [], assigned_vars = {}, used_vars = {}\<rparr> = Inr d'" ..
  then show ?thesis using assms(1) by (simp add: detect_zombie_orbits_def)
qed

section \<open>The scanner and its reports\<close>

lemma dashes_not_entry: "\<not> is_entry_line ([NL] @ replicate 70 (CHR ''-''))"
  "\<not> is_entry_line (replicate 70 (CHR ''-''))"
  by (simp_all add: is_entry_line_def NL_def numeral_eq_Suc)

lemma shown_Nil [simp]: "shown_findings [] = 0"
  by (simp add: shown_findings_def)

lemma shown_append [simp]: "shown_findings (xs @ ys) = shown_findings xs + shown_findings ys"
  by (simp add: shown_findings_def)

lemma shown_concat_entries:
  "(\<And>f. shown_findings (entry f) = 1) \<Longrightarrow> shown_findings (concat (map entry fs)) = length fs"
  by (induction fs) simp_all

lemma shown_entry:
  "shown_findings (magic_entry E c) = 1" "shown_findings (phantom_entry p) = 1"
  "shown_findings (zombie_entry z) = 1" "shown_findings (void_entry v) = 1"
  by (simp_all add: shown_findings_def is_entry_line_def magic_entry_def phantom_entry_def
      zombie_entry_def void_entry_def NL_def)

lemma shown_report_section:
  assumes "\<And>f. shown_findings (entry f) = 1"
    and "title \<noteq> []" and "hd title \<noteq> NL"
    and "count d = length (findings d)"
  shows "shown_findings (report_section E title entry (Some d)) = min 5 (count d)"
proof -
  obtain t ts where t: "title = t # ts" "t \<noteq> NL" using assms(2,3) by (cases title) auto
  have h: "\<not> is_entry_line (title @ rest)" for rest
    using t by (simp add: is_entry_line_def)
  have e: "shown_findings (concat (map entry (take 5 (findings d)))) = min 5 (count d)"
    using shown_concat_entries [of entry "take 5 (findings d)", OF assms(1)] assms(4)
    by (simp add: min.commute)
  have hdr: "shown_findings
     [[NL] @ replicate 70 (CHR ''-''),
      title @ '' ('' @ str_nat (count d) @ '' findings, score: '' @ fmt_1f E (score d) @ '')'',
      replicate 70 (CHR ''-'')] = 0"
    using dashes_not_entry h by (simp add: shown_findings_def)
  show ?thesis
  proof (cases "count d > 0")
    case True
    then show ?thesis
      unfolding report_section_def using e hdr by (simp del: append.simps replicate.simps)
  next
    case False
    then show ?thesis by (simp add: report_section_def)
  qed
qed

lemma report_section_findings:
  "report_section E title entry (Some \<lparr>findings = fs, score = s, count = length fs\<rparr>) =
     (if fs = [] then []
      else [[NL] @ replicate 70 (CHR ''-''),
            title @ '' ('' @ str_nat (length fs) @ '' findings, score: '' @ fmt_1f E s @ '')'',
            replicate 70 (CHR ''-'')]
           @ concat (map entry (take 5 fs)))"
  by (simp add: report_section_def del: replicate.simps)

lemma scan_all_results:
  assumes "scan_all E self = Inr (printed, self')"
  shows "\<exists>ms ps zs vs.
      source_code self' = source_code self \<and> filepath self' = filepath self
    \<and> results self' =
        \<lparr>magic_gravity =
           Some \<lparr>findings = ms, score = calculate_dark_mass_score E ms, count = length ms\<rparr>,
         phantom_loops =
           Some \<lparr>findings = ps, score = calculate_phantom_score ps, count = length ps\<rparr>,
         zombie_orbits =
           Some \<lparr>findings = zs, score = calculate_zombie_score zs, count = length zs\<rparr>,
         evidence_voids =
           Some \<lparr>findings = vs, score = calculate_void_score vs, count = length vs\<rparr>,
         summary =
           Some \<lparr>total_score = calculate_dark_mass_score E ms + calculate_phantom_score ps
                    + calculate_zombie_score zs + calculate_void_score vs,
                 total_findings = length ms + length ps + length zs + length vs,
                 summary_filepath = filepath self\<rparr>\<rparr>
    \<and> detect_magic_gravity E (source_code self) = Inr ms
    \<and> detect_phantom_loops (frames_left E) (ast_parse E) (source_code self) = Inr ps
    \<and> detect_zombie_orbits (str_lower E) (frames_left E) (ast_parse E) (source_code self)
        = Inr zs
    \<and> detect_evidence_voids (frames_left E) (ast_parse E) (source_code self) = Inr vs"
proof -
  obtain m p z v u where r: "results self = \<lparr>magic_gravity = m, phantom_loops = p,
      zombie_orbits = z, evidence_voids = v, summary = u\<rparr>"
    by (cases "results self") auto
  show ?thesis
    using assms unfolding scan_all_def Let_def
    by (auto split: sum.splits simp: r)
qed

lemma scan_all_returns:
  assumes "detect_magic_gravity E (source_code self) = Inr ms"
    and "detect_phantom_loops (frames_left E) (ast_parse E) (source_code self) = Inr ps"
    and "detect_zombie_orbits (str_lower E) (frames_left E) (ast_parse E) (source_code self)
        = Inr zs"
    and "detect_evidence_voids (frames_left E) (ast_parse E) (source_code self) = Inr vs"
  shows "\<exists>printed self'. scan_all E self = Inr (printed, self')"
  unfolding scan_all_def Let_def assms by simp


lemma json_findings_results:
  "json_findings ''magic_gravity'' (JObj
      [(''summary'', s), (''magic_gravity'', detector_json f1 d1),
       (''phantom_loops'', detector_json f2 d2), (''zombie_orbits'', detector_json f3 d3),
       (''evidence_voids'', detector_json f4 d4)]) = Some (map f1 (findings d1))"
  "json_findings ''phantom_loops'' (JObj
      [(''summary'', s), (''magic_gravity'', detector_json f1 d1),
       (''phantom_loops'', detector_json f2 d2), (''zombie_orbits'', detector_json f3 d3),
       (''evidence_voids'', detector_json f4 d4)]) = Some (map f2 (findings d2))"
  "json_findings ''zombie_orbits'' (JObj
      [(''summary'', s), (''magic_gravity'', detector_json f1 d1),
       (''phantom_loops'', detector_json f2 d2), (''zombie_orbits'', detector_json f3 d3),
       (''evidence_voids'', detector_json f4 d4)]) = Some (map f3 (findings d3))"
  "json_findings ''evidence_voids'' (JObj
      [(''summary'', s), (''magic_gravity'', detector_json f1 d1),
       (''phantom_loops'', detector_json f2 d2), (''zombie_orbits'', detector_json f3 d3),
       (''evidence_voids'', detector_json f4 d4)]) = Some (map f4 (findings d4))"
  by (simp_all add: json_findings_def detector_json_def)

lemma json_count_results:
  "json_count ''magic_gravity'' (JObj
      [(''summary'', s), (''magic_gravity'', detector_json f1 d1),
       (''phantom_loops'', detector_json f2 d2), (''zombie_orbits'', detector_json f3 d3),
       (''evidence_voids'', detector_json f4 d4)]) = Some (int (count d1))"
  "json_count ''phantom_loops'' (JObj
      [(''summary'', s), (''magic_gravity'', detector_json f1 d1),
       (''phantom_loops'', detector_json f2 d2), (''zombie_orbits'', detector_json f3 d3),
       (''evidence_voids'', detector_json f4 d4)]) = Some (int (count d2))"
  "json_count ''zombie_orbits'' (JObj
      [(''summary'', s), (''magic_gravity'', detector_json f1 d1),
       (''phantom_loops'', detector_json f2 d2), (''zombie_orbits'', detector_json f3 d3),
       (''evidence_voids'', detector_json f4 d4)]) = Some (int (count d3))"
  "json_count ''evidence_voids'' (JObj
      [(''summary'', s), (''magic_gravity'', detector_json f1 d1),
       (''phantom_loops'', detector_json f2 d2), (''zombie_orbits'', detector_json f3 d3),
       (''evidence_voids'', detector_json f4 d4)]) = Some (int (count d4))"
  by (simp_all add: json_count_def detector_json_def)

text \<open>
  C8. After a scan, the structured report holds, for each of the four detectors, every
  finding that the detector returned, in order and none left out, each serialised as
  the object with exactly the fields line, type, description, severity and context
  (line, value, type, severity and context for the magic-literal detector) and their
  values from the finding; the \<^verbatim>\<open>count\<close> field is the number of the findings. The
  section of a detector in the text report is empty when the detector found nothing,
  and else its three heading lines followed by the four lines of each of the first
  five findings, in order: it opens the entries of exactly \<open>min 5 count\<close> findings.
\<close>

theorem reports_of_scan:
  assumes "scan_all E self = Inr (printed, self')"
  shows "\<exists>ms ps zs vs J.
      detect_magic_gravity E (source_code self) = Inr ms
    \<and> detect_phantom_loops (frames_left E) (ast_parse E) (source_code self) = Inr ps
    \<and> detect_zombie_orbits (str_lower E) (frames_left E) (ast_parse E) (source_code self)
        = Inr zs
    \<and> detect_evidence_voids (frames_left E) (ast_parse E) (source_code self) = Inr vs
    \<and> json_results self' = Inr J
    \<and> generate_report E self' ''json'' = Inr (json_dumps E J)
    \<and> json_findings ''magic_gravity'' J = Some (map (\<lambda>c.
          JObj [(''line'', JInt (int (c_line c))),
                (''value'', JConst (c_value c)),
                (''type'', JStr (c_gravity_type_value c)),
                (''severity'', JStr (c_severity c)),
                (''context'', JStr (c_context c))]) ms)
    \<and> json_findings ''phantom_loops'' J = Some (map (\<lambda>p.
          JObj [(''line'', JInt (int (p_line p))),
                (''type'', JStr (PhantomType_value (p_phantom_type p))),
                (''description'', JStr (p_description p)),
                (''severity'', JStr (p_severity p)),
                (''context'', JStr (p_context p))]) ps)
    \<and> json_findings ''zombie_orbits'' J = Some (map (\<lambda>z.
          JObj [(''line'', JInt (int (z_line z))),
                (''type'', JStr (ZombieType_value (z_zombie_type z))),
                (''description'', JStr (z_description z)),
                (''severity'', JStr (z_severity z)),
                (''context'', JStr (z_context z))]) zs)
    \<and> json_findings ''evidence_voids'' J = Some (map (\<lambda>v.
          JObj [(''line'', JInt (int (v_line v))),
                (''type'', JStr (VoidType_value (v_void_type v))),
                (''description'', JStr (v_description v)),
                (''severity'', JStr (v_severity v)),
                (''context'', JStr (v_context v))]) vs)
    \<and> json_count ''magic_gravity'' J = Some (int (length ms))
    \<and> json_count ''phantom_loops'' J = Some (int (length ps))
    \<and> json_count ''zombie_orbits'' J = Some (int (length zs))
    \<and> json_count ''evidence_voids'' J = Some (int (length vs))
    \<and> map_option count (magic_gravity (results self')) = Some (length ms)
    \<and> map_option count (phantom_loops (results self')) = Some (length ps)
    \<and> map_option count (zombie_orbits (results self')) = Some (length zs)
    \<and> map_option count (evidence_voids (results self')) = Some (length vs)
    \<and> generate_report E self' ''text''
        = Inr (join [NL] (report_header E (results self') @ magic_section E (results self')
            @ phantom_section E (results self') @ zombie_section E (results self')
            @ void_section E (results self') @ report_footer))
    \<and> magic_section E (results self') =
        (if ms = [] then []
         else [[NL] @ replicate 70 (CHR ''-''),
               NEW_MOON @ '' MAGIC GRAVITY'' @ '' ('' @ str_nat (length ms)
                 @ '' findings, score: '' @ fmt_1f E (calculate_dark_mass_score E ms) @ '')'',
               replicate 70 (CHR ''-'')]
              @ concat (map (\<lambda>c.
                  [[NL] @ ''Line '' @ str_nat (c_line c) @ '' | '' @ c_context c,
                   ''  Value: '' @ str_const E (c_value c),
                   ''  Type: '' @ c_gravity_type_value c,
                   ''  Severity: '' @ c_severity c]) (take 5 ms)))
    \<and> phantom_section E (results self') =
        (if ps = [] then []
         else [[NL] @ replicate 70 (CHR ''-''),
               INFINITY @ ''  PHANTOM LOOPS'' @ '' ('' @ str_nat (length ps)
                 @ '' findings, score: '' @ fmt_1f E (calculate_phantom_score ps) @ '')'',
               replicate 70 (CHR ''-'')]
              @ concat (map (\<lambda>p.
                  [[NL] @ ''Line '' @ str_nat (p_line p) @ '' | '' @ p_context p,
                   ''  Type: '' @ PhantomType_value (p_phantom_type p),
                   ''  Issue: '' @ p_description p,
                   ''  Severity: '' @ p_severity p]) (take 5 ps)))
    \<and> zombie_section E (results self') =
        (if zs = [] then []
         else [[NL] @ replicate 70 (CHR ''-''),
               ZOMBIE @ '' ZOMBIE ORBITS'' @ '' ('' @ str_nat (length zs)
                 @ '' findings, score: '' @ fmt_1f E (calculate_zombie_score zs) @ '')'',
               replicate 70 (CHR ''-'')]
              @ concat (map (\<lambda>z.
                  [[NL] @ ''Line '' @ str_nat (z_line z) @ '' | '' @ z_context z,
                   ''  Type: '' @ ZombieType_value (z_zombie_type z),
                   ''  Issue: '' @ z_description z,
                   ''  Severity: '' @ z_severity z]) (take 5 zs)))
    \<and> void_section E (results self') =
        (if vs = [] then []
         else [[NL] @ replicate 70 (CHR ''-''),
               BAR_CHART @ '' EVIDENCE VOIDS'' @ '' ('' @ str_nat (length vs)
                 @ '' findings, score: '' @ fmt_1f E (calculate_void_score vs) @ '')'',
               replicate 70 (CHR ''-'')]
              @ concat (map (\<lambda>v.
                  [[NL] @ ''Line '' @ str_nat (v_line v) @ '' | '' @ v_context v,
                   ''  Type: '' @ VoidType_value (v_void_type v),
                   ''  Issue: '' @ v_description v,
                   ''  Severity: '' @ v_severity v]) (take 5 vs)))
    \<and> shown_findings (magic_section E (results self')) = min 5 (length ms)
    \<and> shown_findings (phantom_section E (results self')) = min 5 (length ps)
    \<and> shown_findings (zombie_section E (results self')) = min 5 (length zs)
    \<and> shown_findings (void_section E (results self')) = min 5 (length vs)"
proof -
  from scan_all_results [OF assms] obtain ms ps zs vs where
    r: "results self' =
        \<lparr>magic_gravity =
           Some \<lparr>findings = ms, score = calculate_dark_mass_score E ms, count = length ms\<rparr>,
         phantom_loops =
           Some \<lparr>findings = ps, score = calculate_phantom_score ps, count = length ps\<rparr>,
         zombie_orbits =
           Some \<lparr>findings = zs, score = calculate_zombie_score zs, count = length zs\<rparr>,
         evidence_voids =
           Some \<lparr>findings = vs, score = calculate_void_score vs, count = length vs\<rparr>,
         summary =
           Some \<lparr>total_score = calculate_dark_mass_score E ms + calculate_phantom_score ps
                    + calculate_zombie_score zs + calculate_void_score vs,
                 total_findings = length ms + length ps + length zs + length vs,
                 summary_filepath = filepath self\<rparr>\<rparr>"
    and d1: "detect_magic_gravity E (source_code self) = Inr ms"
    and d2: "detect_phantom_loops (frames_left E) (ast_parse E) (source_code self) = Inr ps"
    and d3: "detect_zombie_orbits (str_lower E) (frames_left E) (ast_parse E) (source_code self)
        = Inr zs"
    and d4: "detect_evidence_voids (frames_left E) (ast_parse E) (source_code self) = Inr vs"
    by blast
  let ?m = "\<lparr>findings = ms, score = calculate_dark_mass_score E ms, count = length ms\<rparr>"
  let ?p = "\<lparr>findings = ps, score = calculate_phantom_score ps, count = length ps\<rparr>"
  let ?z = "\<lparr>findings = zs, score = calculate_zombie_score zs, count = length zs\<rparr>"
  let ?v = "\<lparr>findings = vs, score = calculate_void_score vs, count = length vs\<rparr>"
  let ?J = "JObj
      [(''summary'', summary_json (summary (results self'))),
       (''magic_gravity'', detector_json magic_json ?m),
       (''phantom_loops'', detector_json phantom_json ?p),
       (''zombie_orbits'', detector_json zombie_json ?z),
       (''evidence_voids'', detector_json void_json ?v)]"
  have j: "json_results self' = Inr ?J"
    by (simp add: json_results_def r)
  have gj: "generate_report E self' ''json'' = Inr (json_dumps E ?J)"
    by (simp add: generate_report_def generate_json_report_def j)
  have jf1: "json_findings ''magic_gravity'' ?J = Some (map (\<lambda>c.
          JObj [(''line'', JInt (int (c_line c))),
                (''value'', JConst (c_value c)),
                (''type'', JStr (c_gravity_type_value c)),
                (''severity'', JStr (c_severity c)),
                (''context'', JStr (c_context c))]) ms)"
    unfolding json_findings_results by (simp add: magic_json_def)
  have jf2: "json_findings ''phantom_loops'' ?J = Some (map (\<lambda>p.
          JObj [(''line'', JInt (int (p_line p))),
                (''type'', JStr (PhantomType_value (p_phantom_type p))),
                (''description'', JStr (p_description p)),
                (''severity'', JStr (p_severity p)),
                (''context'', JStr (p_context p))]) ps)"
    unfolding json_findings_results by (simp add: phantom_json_def)
  have jf3: "json_findings ''zombie_orbits'' ?J = Some (map (\<lambda>z.
          JObj [(''line'', JInt (int (z_line z))),
                (''type'', JStr (ZombieType_value (z_zombie_type z))),
                (''description'', JStr (z_description z)),
                (''severity'', JStr (z_severity z)),
                (''context'', JStr (z_context z))]) zs)"
    unfolding json_findings_results by (simp add: zombie_json_def)
  have jf4: "json_findings ''evidence_voids'' ?J = Some (map (\<lambda>v.
          JObj [(''line'', JInt (int (v_line v))),
                (''type'', JStr (VoidType_value (v_void_type v))),
                (''description'', JStr (v_description v)),
                (''severity'', JStr (v_severity v)),
                (''context'', JStr (v_context v))]) vs)"
    unfolding json_findings_results by (simp add: void_json_def)
  have jc: "json_count ''magic_gravity'' ?J = Some (int (length ms))"
    "json_count ''phantom_loops'' ?J = Some (int (length ps))"
    "json_count ''zombie_orbits'' ?J = Some (int (length zs))"
    "json_count ''evidence_voids'' ?J = Some (int (length vs))"
    unfolding json_count_results by simp_all
  have c: "map_option count (magic_gravity (results self')) = Some (length ms)"
    "map_option count (phantom_loops (results self')) = Some (length ps)"
    "map_option count (zombie_orbits (results self')) = Some (length zs)"
    "map_option count (evidence_voids (results self')) = Some (length vs)"
    by (simp_all add: r)
  have t: "generate_report E self' ''text''
        = Inr (join [NL] (report_header E (results self') @ magic_section E (results self')
            @ phantom_section E (results self') @ zombie_section E (results self')
            @ void_section E (results self') @ report_footer))"
    by (simp add: generate_report_def generate_text_report_def text_report_lines_def)
  have s1: "magic_section E (results self') =
        (if ms = [] then []
         else [[NL] @ replicate 70 (CHR ''-''),
               NEW_MOON @ '' MAGIC GRAVITY'' @ '' ('' @ str_nat (length ms)
                 @ '' findings, score: '' @ fmt_1f E (calculate_dark_mass_score E ms) @ '')'',
               replicate 70 (CHR ''-'')]
              @ concat (map (\<lambda>c.
                  [[NL] @ ''Line '' @ str_nat (c_line c) @ '' | '' @ c_context c,
                   ''  Value: '' @ str_const E (c_value c),
                   ''  Type: '' @ c_gravity_type_value c,
                   ''  Severity: '' @ c_severity c]) (take 5 ms)))"
    unfolding magic_section_def r ScanResults.simps report_section_findings magic_entry_def
    by (simp del: replicate.simps)
  have s2: "phantom_section E (results self') =
        (if ps = [] then []
         else [[NL] @ replicate 70 (CHR ''-''),
               INFINITY @ ''  PHANTOM LOOPS'' @ '' ('' @ str_nat (length ps)
                 @ '' findings, score: '' @ fmt_1f E (calculate_phantom_score ps) @ '')'',
               replicate 70 (CHR ''-'')]
              @ concat (map (\<lambda>p.
                  [[NL] @ ''Line '' @ str_nat (p_line p) @ '' | '' @ p_context p,
                   ''  Type: '' @ PhantomType_value (p_phantom_type p),
                   ''  Issue: '' @ p_description p,
                   ''  Severity: '' @ p_severity p]) (take 5 ps)))"
    unfolding phantom_section_def r ScanResults.simps report_section_findings phantom_entry_def
    by (simp del: replicate.simps)
  have s3: "zombie_section E (results self') =
        (if zs = [] then []
         else [[NL] @ replicate 70 (CHR ''-''),
               ZOMBIE @ '' ZOMBIE ORBITS'' @ '' ('' @ str_nat (length zs)
                 @ '' findings, score: '' @ fmt_1f E (calculate_zombie_score zs) @ '')'',
               replicate 70 (CHR ''-'')]
              @ concat (map (\<lambda>z.
                  [[NL] @ ''Line '' @ str_nat (z_line z) @ '' | '' @ z_context z,
                   ''  Type: '' @ ZombieType_value (z_zombie_type z),
                   ''  Issue: '' @ z_description z,
                   ''  Severity: '' @ z_severity z]) (take 5 zs)))"
    unfolding zombie_section_def r ScanResults.simps report_section_findings zombie_entry_def
    by (simp del: replicate.simps)
  have s4: "void_section E (results self') =
        (if vs = [] then []
         else [[NL] @ replicate 70 (CHR ''-''),
               BAR_CHART @ '' EVIDENCE VOIDS'' @ '' ('' @ str_nat (length vs)
                 @ '' findings, score: '' @ fmt_1f E (calculate_void_score vs) @ '')'',
               replicate 70 (CHR ''-'')]
              @ concat (map (\<lambda>v.
                  [[NL] @ ''Line '' @ str_nat (v_line v) @ '' | '' @ v_context v,
                   ''  Type: '' @ VoidType_value (v_void_type v),
                   ''  Issue: '' @ v_description v,
                   ''  Severity: '' @ v_severity v]) (take 5 vs)))"
    unfolding void_section_def r ScanResults.simps report_section_findings void_entry_def
    by (simp del: replicate.simps)
  have sm: "shown_findings (magic_section E (results self')) = min 5 (length ms)"
    unfolding magic_section_def r
    using shown_report_section [of "magic_entry E" "NEW_MOON @ '' MAGIC GRAVITY''" ?m E]
    by (simp add: shown_entry NEW_MOON_def NL_def)
  have sp: "shown_findings (phantom_section E (results self')) = min 5 (length ps)"
    unfolding phantom_section_def r
    using shown_report_section [of phantom_entry "INFINITY @ ''  PHANTOM LOOPS''" ?p E]
    by (simp add: shown_entry INFINITY_def NL_def)
  have sz: "shown_findings (zombie_section E (results self')) = min 5 (length zs)"
    unfolding zombie_section_def r
    using shown_report_section [of zombie_entry "ZOMBIE @ '' ZOMBIE ORBITS''" ?z E]
    by (simp add: shown_entry ZOMBIE_def NL_def)
  have sv: "shown_findings (void_section E (results self')) = min 5 (length vs)"
    unfolding void_section_def r
    using shown_report_section [of void_entry "BAR_CHART @ '' EVIDENCE VOIDS''" ?v E]
    by (simp add: shown_entry BAR_CHART_def NL_def)
  show ?thesis
    by (intro exI [of _ ms] exI [of _ ps] exI [of _ zs] exI [of _ vs] exI [of _ ?J] conjI)
      (fact d1 d2 d3 d4 j gj jf1 jf2 jf3 jf4 jc c t s1 s2 s3 s4 sm sp sz sv)+
qed


lemma height_six_loops: "height six_loops = 3"
  by (simp add: six_loops_def height.simps)

lemma toy_scan_returns:
  assumes "3 * height tree + 1 \<le> 1000"
  shows "\<exists>printed self'. scan_all (toy_env tree) (new_scanner src name) = Inr (printed, self')"
proof -
  let ?E = "toy_env tree"
  let ?s = "new_scanner src name"
  have p: "ast_parse ?E (source_code ?s) = Inr tree"
    by (simp add: toy_env_def new_scanner_def parse_as_def)
  have f: "3 * height tree + 1 \<le> frames_left ?E"
    using assms by (simp add: toy_env_def)
  have "detect_magic_gravity ?E (source_code ?s) = Inr []"
    by (simp add: toy_env_def)
  moreover from detect_phantom_returns [where parse = "ast_parse ?E" and src = "source_code ?s", OF p f] obtain ps where
    "detect_phantom_loops (frames_left ?E) (ast_parse ?E) (source_code ?s) = Inr ps" ..
  moreover from detect_zombie_returns [where parse = "ast_parse ?E" and src = "source_code ?s", OF p f] obtain zs where
    "detect_zombie_orbits (str_lower ?E) (frames_left ?E) (ast_parse ?E) (source_code ?s)
       = Inr zs" ..
  moreover from detect_void_returns [where parse = "ast_parse ?E" and src = "source_code ?s", OF p f] obtain vs where
    "detect_evidence_voids (frames_left ?E) (ast_parse ?E) (source_code ?s) = Inr vs" ..
  ultimately show ?thesis by (rule scan_all_returns)
qed

theorem reports_of_scan_witness:
  "\<exists>printed self' J fs.
      scan_all (toy_env six_loops) (new_scanner six_loops_src ''six.py'') = Inr (printed, self')
    \<and> json_results self' = Inr J
    \<and> json_findings ''phantom_loops'' J = Some fs \<and> length fs = 6
    \<and> fs ! 5 = JObj [(''line'', JInt 6),
                      (''type'', JStr ''while_true_break''),
                      (''description'', JStr ''Loop claims infinity but breaks immediately''),
                      (''severity'', JStr ''HIGH''),
                      (''context'', JStr ''module'')]
    \<and> json_count ''phantom_loops'' J = Some 6
    \<and> shown_findings (phantom_section (toy_env six_loops) (results self')) = 5"
proof -
  let ?E = "toy_env six_loops"
  let ?s = "new_scanner six_loops_src ''six.py''"
  let ?proj = "\<lambda>p. (p_line p, PhantomType_value (p_phantom_type p), p_description p,
                     p_severity p, p_context p)"
  have "3 * height six_loops + 1 \<le> 1000" by (simp add: height_six_loops)
  then obtain printed self' where h: "scan_all ?E ?s = Inr (printed, self')"
    using toy_scan_returns by blast
  have dp: "map_sum id (map ?proj) (detect_phantom_loops 1000 (parse_as six_loops) six_loops_src)
      = Inr [(1, ''while_true_break'', ''Loop claims infinity but breaks immediately'',
              ''HIGH'', ''module''),
             (2, ''while_true_break'', ''Loop claims infinity but breaks immediately'',
              ''HIGH'', ''module''),
             (3, ''while_true_break'', ''Loop claims infinity but breaks immediately'',
              ''HIGH'', ''module''),
             (4, ''while_true_break'', ''Loop claims infinity but breaks immediately'',
              ''HIGH'', ''module''),
             (5, ''while_true_break'', ''Loop claims infinity but breaks immediately'',
              ''HIGH'', ''module''),
             (6, ''while_true_break'', ''Loop claims infinity but breaks immediately'',
              ''HIGH'', ''module'')]"
    by (simp add: phantom_visit_While phantom_visit_other generic_visit_def py_call_pos
        detect_phantom_loops_def calculate_severity_def Let_def parse_as_def six_loops_def)
  from reports_of_scan [OF h] obtain ms :: "MagicConstant list" and ps
    and zs :: "ZombieOrbit list" and vs :: "EvidenceVoid list" and J where
    d: "detect_phantom_loops (frames_left ?E) (ast_parse ?E) (source_code ?s) = Inr ps"
    and j: "json_results self' = Inr J"
    and f: "json_findings ''phantom_loops'' J = Some (map (\<lambda>p.
          JObj [(''line'', JInt (int (p_line p))),
                (''type'', JStr (PhantomType_value (p_phantom_type p))),
                (''description'', JStr (p_description p)),
                (''severity'', JStr (p_severity p)),
                (''context'', JStr (p_context p))]) ps)"
    and c: "json_count ''phantom_loops'' J = Some (int (length ps))"
    and s: "shown_findings (phantom_section ?E (results self')) = min 5 (length ps)"
    by blast
  from d have d': "detect_phantom_loops 1000 (parse_as six_loops) six_loops_src = Inr ps"
    by (simp add: toy_env_def new_scanner_def)
  have m: "map ?proj ps
      = [(1, ''while_true_break'', ''Loop claims infinity but breaks immediately'',
              ''HIGH'', ''module''),
             (2, ''while_true_break'', ''Loop claims infinity but breaks immediately'',
              ''HIGH'', ''module''),
             (3, ''while_true_break'', ''Loop claims infinity but breaks immediately'',
              ''HIGH'', ''module''),
             (4, ''while_true_break'', ''Loop claims infinity but breaks immediately'',
              ''HIGH'', ''module''),
             (5, ''while_true_break'', ''Loop claims infinity but breaks immediately'',
              ''HIGH'', ''module''),
             (6, ''while_true_break'', ''Loop claims infinity but breaks immediately'',
              ''HIGH'', ''module'')]"
    using dp unfolding d' by simp
  from arg_cong [OF m, of length] have n: "length ps = 6" by simp
  from arg_cong [OF m, of "\<lambda>l. l ! 5"] n
  have p5: "?proj (ps ! 5) = (6, ''while_true_break'',
      ''Loop claims infinity but breaks immediately'', ''HIGH'', ''module'')"
    by simp
  let ?fs = "map (\<lambda>p.
          JObj [(''line'', JInt (int (p_line p))),
                (''type'', JStr (PhantomType_value (p_phantom_type p))),
                (''description'', JStr (p_description p)),
                (''severity'', JStr (p_severity p)),
                (''context'', JStr (p_context p))]) ps"
  have l: "length ?fs = 6" using n by simp
  have e: "?fs ! 5 = JObj [(''line'', JInt 6),
                      (''type'', JStr ''while_true_break''),
                      (''description'', JStr ''Loop claims infinity but breaks immediately''),
                      (''severity'', JStr ''HIGH''),
                      (''context'', JStr ''module'')]"
    using p5 n by simp
  have c': "json_count ''phantom_loops'' J = Some 6" using c n by simp
  have s': "shown_findings (phantom_section ?E (results self')) = 5" using s n by simp
  show ?thesis
    by (intro exI [of _ printed] exI [of _ self'] exI [of _ J] exI [of _ ?fs] conjI)
      (fact h j f l e c' s')+
qed





end
